theory Spec2Isabelle
  imports Complex_Main "HOL-Library.Word" "HOL-Library.Product_Lexorder"
begin

section \<open>Data model of defog.c\<close>

text \<open>
  The program works on OpenCV images through \<^verbatim>\<open>cvGet2D\<close> and \<^verbatim>\<open>cvSet2D\<close>. The
  input image is loaded with \<^verbatim>\<open>CV_LOAD_IMAGE_COLOR\<close>, so it holds unsigned bytes; the
  grayscale image is created with the same depth. Reading the file, the conversion to
  grayscale, the display and the count of high-frequency pixels (\<^verbatim>\<open>evaluate\<close>) are
  OpenCV's work and are left out.

  A C \<^verbatim>\<open>double\<close> is modelled as a \<^typ>\<open>real\<close>. The values the program compares are
  bytes and \<open>-1\<close>, which doubles hold exactly; the quotient and the products of \<^verbatim>\<open>main\<close>
  are computed here without rounding, and the quotient by a zero light intensity (an
  IEEE infinity or NaN in C) has no counterpart, so statements about the quotient
  exclude a zero divisor. A C \<^verbatim>\<open>int\<close> is an \<^typ>\<open>int\<close>: an \<^verbatim>\<open>IplImage\<close> keeps its
  size in bytes in an \<^verbatim>\<open>int\<close>, so neither \<^verbatim>\<open>x + 10\<close> nor the area of a region
  overflows.
\<close>

text \<open>\<^verbatim>\<open>CvScalar\<close>: the array \<^verbatim>\<open>double val[4]\<close>.\<close>

datatype CvScalar = CvScalar real real real real

text \<open>\<^verbatim>\<open>sc.val[i]\<close>; the code only reads indices 0 to 3.\<close>

fun val :: "CvScalar \<Rightarrow> int \<Rightarrow> real" where
  "val (CvScalar a b c d) i =
     (if i = 0 then a else if i = 1 then b else if i = 2 then c else d)"

text \<open>\<^verbatim>\<open>sc.val[i] = v\<close>.\<close>

fun val_update :: "CvScalar \<Rightarrow> int \<Rightarrow> real \<Rightarrow> CvScalar" where
  "val_update (CvScalar a b c d) i v =
     (if i = 0 then CvScalar v b c d
      else if i = 1 then CvScalar a v c d
      else if i = 2 then CvScalar a b v d
      else CvScalar a b c v)"

text \<open>The constructors \<^verbatim>\<open>cvScalar\<close> and \<^verbatim>\<open>cvScalarAll\<close>.\<close>

definition cvScalar :: "real \<Rightarrow> real \<Rightarrow> real \<Rightarrow> real \<Rightarrow> CvScalar" where
  "cvScalar a b c d = CvScalar a b c d"

definition cvScalarAll :: "real \<Rightarrow> CvScalar" where
  "cvScalarAll a = CvScalar a a a a"

text \<open>
  \<^verbatim>\<open>IplImage\<close> of depth \<^verbatim>\<open>IPL_DEPTH_8U\<close>: its size, its channel count and its bytes,
  addressed by row, column and channel.
\<close>

record IplImage =
  width :: int
  height :: int
  nChannels :: int
  imageData :: "int \<Rightarrow> int \<Rightarrow> int \<Rightarrow> 8 word"

text \<open>The only failure the program can meet in the core: OpenCV's range check.\<close>

datatype error = StsOutOfRange

text \<open>Sequencing: the first error ends the computation.\<close>

definition bind_e :: "error + 'a \<Rightarrow> ('a \<Rightarrow> error + 'b) \<Rightarrow> error + 'b" where
  "bind_e m f = (case m of Inl e \<Rightarrow> Inl e | Inr v \<Rightarrow> f v)"

text \<open>
  The scalar \<^verbatim>\<open>cvGet2D\<close> builds from the bytes of one pixel: the channels the image
  has, converted to double, and zero in the remaining components.
\<close>

definition pixel :: "IplImage \<Rightarrow> int \<Rightarrow> int \<Rightarrow> CvScalar" where
  "pixel img y x =
     CvScalar
       (if 0 < nChannels img then real (unat (imageData img y x 0)) else 0)
       (if 1 < nChannels img then real (unat (imageData img y x 1)) else 0)
       (if 2 < nChannels img then real (unat (imageData img y x 2)) else 0)
       (if 3 < nChannels img then real (unat (imageData img y x 3)) else 0)"

text \<open>\<^verbatim>\<open>cvGet2D(img, y, x)\<close>: row first, then column; an index outside the image raises.\<close>

definition cvGet2D :: "IplImage \<Rightarrow> int \<Rightarrow> int \<Rightarrow> error + CvScalar" where
  "cvGet2D img y x =
     (if 0 \<le> y \<and> y < height img \<and> 0 \<le> x \<and> x < width img
      then Inr (pixel img y x) else Inl StsOutOfRange)"

text \<open>
  \<^verbatim>\<open>for (int i = lo; i < hi; i++) body\<close> over a state, for the loops whose body reads
  or writes an image and may therefore raise.
\<close>

function for_loop :: "int \<Rightarrow> int \<Rightarrow> (int \<Rightarrow> 's \<Rightarrow> error + 's) \<Rightarrow> 's \<Rightarrow> error + 's" where
  "for_loop i n body s =
     (if i < n
      then (case body i s of Inl e \<Rightarrow> Inl e | Inr s' \<Rightarrow> for_loop (i + 1) n body s')
      else Inr s)"
  by pat_completeness auto
termination
  by (relation "measure (\<lambda>(i, n, body, s). nat (n - i))") auto

declare for_loop.simps [simp del]

section \<open>scalar_min\<close>

text \<open>
  The loop of \<^verbatim>\<open>scalar_min\<close> from index \<open>i\<close> on, with the running minimum and its index.
\<close>

function scalar_min_loop :: "CvScalar \<Rightarrow> int \<Rightarrow> int \<Rightarrow> real \<Rightarrow> int \<Rightarrow> int" where
  "scalar_min_loop sc num_vals i min_v min_in =
     (if i < num_vals
      then (if val sc i < min_v
            then scalar_min_loop sc num_vals (i + 1) (val sc i) i
            else scalar_min_loop sc num_vals (i + 1) min_v min_in)
      else min_in)"
  by pat_completeness auto
termination
  by (relation "measure (\<lambda>(sc, num_vals, i, min_v, min_in). nat (num_vals - i))") auto

declare scalar_min_loop.simps [simp del]

definition scalar_min :: "CvScalar \<Rightarrow> int \<Rightarrow> int" where
  "scalar_min sc num_vals = scalar_min_loop sc num_vals 1 (val sc 0) 0"

section \<open>find_dark_channel\<close>

text \<open>One iteration of the inner loop: the state is \<^verbatim>\<open>(min_pixel, min)\<close>.\<close>

definition dark_step :: "IplImage \<Rightarrow> int \<Rightarrow> int \<Rightarrow> CvScalar \<times> int \<Rightarrow> error + CvScalar \<times> int" where
  "dark_step img y x st =
     bind_e (cvGet2D img y x) (\<lambda>curr_pixel.
       let curr_min = scalar_min curr_pixel 3 in
       if val curr_pixel curr_min < val (fst st) (snd st)
       then Inr (curr_pixel, curr_min)
       else Inr st)"

text \<open>The whole scan, returning the final \<^verbatim>\<open>(min_pixel, min)\<close>.\<close>

definition dark_scan :: "IplImage \<Rightarrow> int \<Rightarrow> int \<Rightarrow> int \<Rightarrow> int \<Rightarrow> error + CvScalar \<times> int" where
  "dark_scan img x1 y1 x2 y2 =
     bind_e (cvGet2D img y1 x1) (\<lambda>min_pixel.
       for_loop y1 y2 (\<lambda>y. for_loop x1 x2 (dark_step img y))
         (min_pixel, scalar_min min_pixel 3))"

text \<open>\<^verbatim>\<open>find_dark_channel\<close> returns \<^verbatim>\<open>min\<close>.\<close>

definition find_dark_channel :: "IplImage \<Rightarrow> int \<Rightarrow> int \<Rightarrow> int \<Rightarrow> int \<Rightarrow> error + int" where
  "find_dark_channel img x1 y1 x2 y2 =
     bind_e (dark_scan img x1 y1 x2 y2) (\<lambda>st. Inr (snd st))"

section \<open>find_light_intensity\<close>

text \<open>
  \<^verbatim>\<open>channel_value_t\<close>. The fields are \<^verbatim>\<open>x\<close>, \<^verbatim>\<open>y\<close>, \<^verbatim>\<open>val\<close> and \<^verbatim>\<open>intensity\<close> in the
  source; they carry a prefix here, since \<open>x\<close>, \<open>y\<close> and \<open>val\<close> are in use, and the array
  \<^verbatim>\<open>top\<close> is \<open>tops\<close>, since \<open>top\<close> is a constant of HOL.
\<close>

record channel_value_t =
  cv_x :: int
  cv_y :: int
  cv_val :: real
  cv_intensity :: real

text \<open>The conversion of a double to \<^verbatim>\<open>int\<close> truncates towards zero.\<close>

definition trunc :: "real \<Rightarrow> int" where
  "trunc r = (if 0 \<le> r then \<lfloor>r\<rfloor> else \<lceil>r\<rceil>)"

text \<open>\<^verbatim>\<open>int top_num = (x2 - x1) * (y2 - y1) * 0.001;\<close>, in exact arithmetic.\<close>

definition top_num :: "int \<Rightarrow> int \<Rightarrow> int \<Rightarrow> int \<Rightarrow> int" where
  "top_num x1 y1 x2 y2 = trunc (real_of_int ((x2 - x1) * (y2 - y1)) * 0.001)"

text \<open>The values every slot of \<^verbatim>\<open>top\<close> is set to before the scan.\<close>

definition unset_slot :: channel_value_t where
  "unset_slot = \<lparr>cv_x = - 1, cv_y = - 1, cv_val = - 1, cv_intensity = - 1\<rparr>"

text \<open>
  The initialisation loop. The array comes from \<^verbatim>\<open>malloc\<close>, so slot \<open>i\<close> has no
  defined content before iteration \<open>i\<close>: the list holds the slots written so far, and
  nothing when \<open>n\<close> is zero or negative.
\<close>

function init_top :: "int \<Rightarrow> int \<Rightarrow> channel_value_t list \<Rightarrow> channel_value_t list" where
  "init_top i n tops = (if i < n then init_top (i + 1) n (tops @ [unset_slot]) else tops)"
  by pat_completeness auto
termination
  by (relation "measure (\<lambda>(i, n, tops). nat (n - i))") auto

declare init_top.simps [simp del]

text \<open>The test of line 98 on the slot \<open>t\<close> against the pixel's candidate \<open>p\<close>.\<close>

definition slot_below :: "channel_value_t \<Rightarrow> channel_value_t \<Rightarrow> bool" where
  "slot_below t p \<longleftrightarrow>
     cv_val t < cv_val p \<or> (cv_val t = cv_val p \<and> cv_intensity t < cv_intensity p)"

text \<open>
  The loop over the slots with its \<^verbatim>\<open>break\<close>: the first slot that passes the test is
  overwritten and the loop ends.
\<close>

fun place :: "channel_value_t list \<Rightarrow> channel_value_t \<Rightarrow> channel_value_t list" where
  "place [] p = []"
| "place (t # ts) p = (if slot_below t p then p # ts else t # place ts p)"

text \<open>
  The values lines 100 to 103 store in a slot for the pixel at row \<open>y\<close>, column \<open>x\<close>, read
  from the images directly.
\<close>

definition candidate :: "IplImage \<Rightarrow> IplImage \<Rightarrow> int \<Rightarrow> int \<Rightarrow> int \<Rightarrow> channel_value_t" where
  "candidate img gray dark_channel y x =
     \<lparr>cv_x = x, cv_y = y,
      cv_val = val (pixel img y x) dark_channel,
      cv_intensity = val (pixel gray y x) 0\<rparr>"

text \<open>One iteration of the inner loop of the scan, lines 92 to 108.\<close>

definition light_step ::
  "IplImage \<Rightarrow> IplImage \<Rightarrow> int \<Rightarrow> int \<Rightarrow> int \<Rightarrow> channel_value_t list \<Rightarrow> error + channel_value_t list"
where
  "light_step img gray dark_channel y x tops =
     bind_e (cvGet2D img y x) (\<lambda>p.
     bind_e (cvGet2D gray y x) (\<lambda>g.
       Inr (place tops \<lparr>cv_x = x, cv_y = y, cv_val = val p dark_channel, cv_intensity = val g 0\<rparr>)))"

text \<open>Lines 76 to 110: the array \<^verbatim>\<open>top\<close> after the scan of the region.\<close>

definition light_scan ::
  "IplImage \<Rightarrow> IplImage \<Rightarrow> int \<Rightarrow> int \<Rightarrow> int \<Rightarrow> int \<Rightarrow> error + channel_value_t list"
where
  "light_scan img gray x1 y1 x2 y2 =
     bind_e (find_dark_channel img x1 y1 x2 y2) (\<lambda>dark_channel.
       for_loop y1 y2 (\<lambda>y. for_loop x1 x2 (light_step img gray dark_channel y))
         (init_top 0 (top_num x1 y1 x2 y2) []))"

text \<open>
  The last loop: \<^verbatim>\<open>max\<close> starts with intensity \<open>-1.0\<close> (its other fields are never
  read), and a slot is copied over it when its intensity is greater.
\<close>

fun max_loop :: "channel_value_t list \<Rightarrow> real \<Rightarrow> real" where
  "max_loop [] m = m"
| "max_loop (t # ts) m = max_loop ts (if cv_intensity t > m then cv_intensity t else m)"

text \<open>\<^verbatim>\<open>find_light_intensity\<close> returns \<^verbatim>\<open>max->intensity\<close>.\<close>

definition find_light_intensity ::
  "IplImage \<Rightarrow> IplImage \<Rightarrow> int \<Rightarrow> int \<Rightarrow> int \<Rightarrow> int \<Rightarrow> error + real"
where
  "find_light_intensity img gray x1 y1 x2 y2 =
     bind_e (light_scan img gray x1 y1 x2 y2) (\<lambda>tops. Inr (max_loop tops (- 1)))"

section \<open>The loops of main\<close>

text \<open>The bounds of the window of a pixel, lines 251 to 254.\<close>

definition MAP_WIDTH :: int where
  "MAP_WIDTH = 20"

definition x_low :: "int \<Rightarrow> int" where
  "x_low x = (if x - MAP_WIDTH div 2 > 0 then x - MAP_WIDTH div 2 else 0)"

definition y_low :: "int \<Rightarrow> int" where
  "y_low y = (if y - MAP_WIDTH div 2 > 0 then y - MAP_WIDTH div 2 else 0)"

definition x_high :: "int \<Rightarrow> int \<Rightarrow> int" where
  "x_high w x = (if x + MAP_WIDTH div 2 \<le> w then x + MAP_WIDTH div 2 else w)"

definition y_high :: "int \<Rightarrow> int \<Rightarrow> int" where
  "y_high h y = (if y + MAP_WIDTH div 2 \<le> h then y + MAP_WIDTH div 2 else h)"

text \<open>
  An image made by \<^verbatim>\<open>cvCreateImage\<close> and filled through \<^verbatim>\<open>cvSet2D\<close>: a cell is unset,
  or holds the scalar that was handed to \<^verbatim>\<open>cvSet2D\<close>. How OpenCV converts that scalar
  to the depth of the image is the library's business and is not modelled.
\<close>

record OutImage =
  owidth :: int
  oheight :: int
  onChannels :: int
  cells :: "int \<times> int \<Rightarrow> CvScalar option"

text \<open>\<^verbatim>\<open>cvCreateImage\<close> for a size and a channel count: no cell is set.\<close>

definition cvCreateImage :: "int \<Rightarrow> int \<Rightarrow> int \<Rightarrow> OutImage" where
  "cvCreateImage w h ch = \<lparr>owidth = w, oheight = h, onChannels = ch, cells = (\<lambda>c. None)\<rparr>"

text \<open>\<^verbatim>\<open>cvSet2D(m, y, x, sc)\<close>, with the same range check as \<^verbatim>\<open>cvGet2D\<close>.\<close>

definition cvSet2D :: "OutImage \<Rightarrow> int \<Rightarrow> int \<Rightarrow> CvScalar \<Rightarrow> error + OutImage" where
  "cvSet2D m y x sc =
     (if 0 \<le> y \<and> y < oheight m \<and> 0 \<le> x \<and> x < owidth m
      then Inr (m\<lparr>cells := (cells m)((y, x) \<mapsto> sc)\<rparr>) else Inl StsOutOfRange)"

text \<open>Line 271, for channel \<open>i\<close>: \<^verbatim>\<open>fmax\<close> of two finite doubles is their maximum.\<close>

definition channel_step ::
  "IplImage \<Rightarrow> real \<Rightarrow> real \<Rightarrow> int \<Rightarrow> int \<Rightarrow> int \<Rightarrow> CvScalar \<Rightarrow> error + CvScalar"
where
  "channel_step img light_intensity t y x i out_pixel =
     bind_e (cvGet2D img y x) (\<lambda>p.
       Inr (val_update out_pixel i
              ((val p i - light_intensity) / max t 0.54 + light_intensity)))"

text \<open>Lines 251 to 275: the body of the inner loop; the state is \<^verbatim>\<open>(map, out)\<close>.\<close>

definition pixel_step ::
  "IplImage \<Rightarrow> real \<Rightarrow> int \<Rightarrow> int \<Rightarrow> OutImage \<times> OutImage \<Rightarrow> error + OutImage \<times> OutImage"
where
  "pixel_step img light_intensity y x st =
     bind_e (find_dark_channel img (x_low x) (y_low y)
               (x_high (width img) x) (y_high (height img) y)) (\<lambda>dark_channel.
     bind_e (cvGet2D img y x) (\<lambda>p.
       let t = 1 - val p dark_channel / light_intensity in
       bind_e (cvSet2D (fst st) y x (cvScalar (t * 255.0) 0.0 0.0 0.0)) (\<lambda>map'.
       bind_e (for_loop 0 (onChannels (snd st)) (channel_step img light_intensity t y x)
                 (cvScalarAll 0.0)) (\<lambda>out_pixel.
       bind_e (cvSet2D (snd st) y x out_pixel) (\<lambda>out'.
         Inr (map', out'))))))"

text \<open>Lines 243 to 277, for a given \<^verbatim>\<open>light_intensity\<close>.\<close>

definition defog_loops :: "IplImage \<Rightarrow> real \<Rightarrow> error + OutImage \<times> OutImage" where
  "defog_loops img light_intensity =
     for_loop 0 (height img) (\<lambda>y. for_loop 0 (width img) (pixel_step img light_intensity y))
       (cvCreateImage (width img) (height img) 1,
        cvCreateImage (width img) (height img) (nChannels img))"

text \<open>
  The core of \<^verbatim>\<open>main\<close>: the light intensity of the whole image, then the loops. The
  grayscale image comes from \<^verbatim>\<open>cvCvtColor\<close> and is a parameter here. The result is the
  light intensity, the transmission map and the output image.
\<close>

definition defog_main :: "IplImage \<Rightarrow> IplImage \<Rightarrow> error + real \<times> OutImage \<times> OutImage" where
  "defog_main img gray =
     bind_e (find_light_intensity img gray 0 0 (width img) (height img)) (\<lambda>light_intensity.
     bind_e (defog_loops img light_intensity) (\<lambda>st.
       Inr (light_intensity, fst st, snd st)))"

section \<open>Notions used in the statements\<close>

text \<open>The smallest of the three colour values of a pixel.\<close>

definition min_value :: "CvScalar \<Rightarrow> real" where
  "min_value sc = min (val sc 0) (min (val sc 1) (val sc 2))"

text \<open>The pixel at row \<open>y\<close>, column \<open>x\<close> lies in the region \<open>[x1, x2) \<times> [y1, y2)\<close>.\<close>

definition in_region :: "int \<Rightarrow> int \<Rightarrow> int \<Rightarrow> int \<Rightarrow> int \<Rightarrow> int \<Rightarrow> bool" where
  "in_region x1 y1 x2 y2 y x \<longleftrightarrow> x1 \<le> x \<and> x < x2 \<and> y1 \<le> y \<and> y < y2"

text \<open>Row-major order: \<open>(y, x)\<close> is visited before \<open>(Y, X)\<close>.\<close>

definition scanned_before :: "int \<Rightarrow> int \<Rightarrow> int \<Rightarrow> int \<Rightarrow> bool" where
  "scanned_before y x Y X \<longleftrightarrow> y < Y \<or> (y = Y \<and> x < X)"

text \<open>The pixels of a region in the order the nested loops visit them, as (row, column).\<close>

definition row_major :: "int \<Rightarrow> int \<Rightarrow> int \<Rightarrow> int \<Rightarrow> (int \<times> int) list" where
  "row_major x1 y1 x2 y2 = concat (map (\<lambda>y. map (\<lambda>x. (y, x)) [x1..x2 - 1]) [y1..y2 - 1])"

section \<open>Invariants of the loops\<close>

text \<open>
  Invariant of the scan of \<^const>\<open>dark_scan\<close> when it is about to visit \<open>(Y, X)\<close>: the
  state is a pixel of the region with its \<^const>\<open>scalar_min\<close>, no visited pixel has a
  smaller minimum, and every pixel visited before it has a greater one.
\<close>

definition dark_inv ::
  "IplImage \<Rightarrow> int \<Rightarrow> int \<Rightarrow> int \<Rightarrow> int \<Rightarrow> int \<Rightarrow> int \<Rightarrow> CvScalar \<times> int \<Rightarrow> bool"
where
  "dark_inv img x1 y1 x2 y2 Y X st \<longleftrightarrow>
     (\<exists>px py. in_region x1 y1 x2 y2 py px \<and>
        st = (pixel img py px, scalar_min (pixel img py px) 3) \<and>
        (\<forall>x y. in_region x1 y1 x2 y2 y x \<and> scanned_before y x Y X \<longrightarrow>
           min_value (pixel img py px) \<le> min_value (pixel img y x)) \<and>
        (\<forall>x y. in_region x1 y1 x2 y2 y x \<and> scanned_before y x py px \<longrightarrow>
           min_value (pixel img py px) < min_value (pixel img y x)))"

text \<open>
  What the loops of \<^verbatim>\<open>main\<close> have done for the pixel at row \<open>y\<close>, column \<open>x\<close> of a
  three-channel image: the window of the pixel has a dark channel \<open>dc\<close>, the map cell
  holds the scaled transmission estimate and the output cell the three recovered values.
\<close>

definition pixel_done :: "IplImage \<Rightarrow> real \<Rightarrow> OutImage \<times> OutImage \<Rightarrow> int \<Rightarrow> int \<Rightarrow> bool" where
  "pixel_done img L st y x \<longleftrightarrow>
     (\<exists>dc. find_dark_channel img (x_low x) (y_low y)
             (x_high (width img) x) (y_high (height img) y) = Inr dc \<and>
        cells (fst st) (y, x) =
          Some (CvScalar ((1 - val (pixel img y x) dc / L) * 255) 0 0 0) \<and>
        cells (snd st) (y, x) =
          Some (CvScalar
            ((val (pixel img y x) 0 - L) / max (1 - val (pixel img y x) dc / L) 0.54 + L)
            ((val (pixel img y x) 1 - L) / max (1 - val (pixel img y x) dc / L) 0.54 + L)
            ((val (pixel img y x) 2 - L) / max (1 - val (pixel img y x) dc / L) 0.54 + L)
            0))"

text \<open>
  Invariant of the loops of \<^verbatim>\<open>main\<close> when they are about to visit \<open>(Y, X)\<close>: the two
  images have the size of the input, and every pixel visited so far is done.
\<close>

definition main_inv :: "IplImage \<Rightarrow> real \<Rightarrow> int \<Rightarrow> int \<Rightarrow> OutImage \<times> OutImage \<Rightarrow> bool" where
  "main_inv img L Y X st \<longleftrightarrow>
     owidth (fst st) = width img \<and> oheight (fst st) = height img \<and>
     owidth (snd st) = width img \<and> oheight (snd st) = height img \<and>
     onChannels (snd st) = 3 \<and>
     (\<forall>x y. in_region 0 0 (width img) (height img) y x \<and> scanned_before y x Y X \<longrightarrow>
        pixel_done img L st y x)"

section \<open>Example images\<close>

text \<open>A 3 by 2 image whose darkest value is the green byte of the pixel at row 1, column 1.\<close>

definition img_small :: IplImage where
  "img_small =
     \<lparr>width = 3, height = 2, nChannels = 3,
      imageData = (\<lambda>y x c. if y = 1 \<and> x = 1 then (if c = 1 then 7 else 40)
                             else (if c = 2 then 90 else 120))\<rparr>"

text \<open>A 3 by 2 image with the same value in every byte.\<close>

definition img_flat :: IplImage where
  "img_flat = \<lparr>width = 3, height = 2, nChannels = 3, imageData = (\<lambda>y x c. 50)\<rparr>"

text \<open>
  A 3 by 2 image where two pixels share the smallest value 5: row 0, column 1 has it in
  channels 0 and 2, row 1, column 0 has it in channel 1.
\<close>

definition img_tie :: IplImage where
  "img_tie =
     \<lparr>width = 3, height = 2, nChannels = 3,
      imageData = (\<lambda>y x c. if y = 0 \<and> x = 1 then (if c = 1 then 9 else 5)
                             else if y = 1 \<and> x = 0 then (if c = 1 then 5 else 9)
                             else 30)\<rparr>"

text \<open>The grayscale image that goes with the first 3 by 2 example.\<close>

definition gray_small :: IplImage where
  "gray_small =
     \<lparr>width = 3, height = 2, nChannels = 1,
      imageData = (\<lambda>y x c. if y = 1 \<and> x = 1 then 25 else 110)\<rparr>"

text \<open>
  A 50 by 20 image, 1000 pixels: the pixel at row 7, column 31 is bright, all others are
  dark with their smallest value in channel 2.
\<close>

definition img_big :: IplImage where
  "img_big =
     \<lparr>width = 50, height = 20, nChannels = 3,
      imageData = (\<lambda>y x c. if y = 7 \<and> x = 31 then (if c = 0 then 200 else if c = 1 then 250 else 240)
                             else (if c = 0 then 30 else if c = 1 then 20 else 10))\<rparr>"

text \<open>Its grayscale image: 235 at the bright pixel, 18 elsewhere.\<close>

definition gray_big :: IplImage where
  "gray_big =
     \<lparr>width = 50, height = 20, nChannels = 1,
      imageData = (\<lambda>y x c. if y = 7 \<and> x = 31 then 235 else 18)\<rparr>"

text \<open>A slot with a given value and intensity, to try \<^const>\<open>place\<close> on.\<close>

definition slot :: "real \<Rightarrow> real \<Rightarrow> channel_value_t" where
  "slot v i = \<lparr>cv_x = 0, cv_y = 0, cv_val = v, cv_intensity = i\<rparr>"

section \<open>Rules for the loops\<close>

lemma bind_e_Inr [simp]: "bind_e (Inr v) f = f v"
  by (simp add: bind_e_def)

lemma bind_e_Inl [simp]: "bind_e (Inl e) f = Inl e"
  by (simp add: bind_e_def)

text \<open>Total correctness of a for loop from an invariant indexed by the counter.\<close>

lemma for_loop_rule_from:
  assumes step: "\<And>j t. lo \<le> j \<Longrightarrow> j < n \<Longrightarrow> I j t \<Longrightarrow> \<exists>t'. body j t = Inr t' \<and> I (j + 1) t'"
  shows "lo \<le> i \<Longrightarrow> i \<le> n \<Longrightarrow> I i s \<Longrightarrow> \<exists>s'. for_loop i n body s = Inr s' \<and> I n s'"
proof (induction "nat (n - i)" arbitrary: i s)
  case 0
  then have "i = n" by simp
  with 0 show ?case by (simp add: for_loop.simps)
next
  case (Suc k)
  then have lt: "i < n" by linarith
  from step [OF Suc.prems(1) lt Suc.prems(3)]
  obtain t' where t': "body i s = Inr t'" "I (i + 1) t'" by auto
  have k: "k = nat (n - (i + 1))" using Suc.hyps(2) by linarith
  have "lo \<le> i + 1" "i + 1 \<le> n" using Suc.prems(1) lt by auto
  from Suc.hyps(1) [OF k this t'(2)]
  obtain s' where "for_loop (i + 1) n body t' = Inr s'" "I n s'" by auto
  with t' lt show ?case by (subst for_loop.simps) simp
qed

lemma for_loop_rule:
  assumes "i \<le> n" and "I i s"
    and "\<And>j t. i \<le> j \<Longrightarrow> j < n \<Longrightarrow> I j t \<Longrightarrow> \<exists>t'. body j t = Inr t' \<and> I (j + 1) t'"
  shows "\<exists>s'. for_loop i n body s = Inr s' \<and> I n s'"
  using for_loop_rule_from [of i n I body i s] assms by blast

section \<open>Properties of scalar_min\<close>

text \<open>For three values the loop of \<^const>\<open>scalar_min\<close> unfolds to two comparisons.\<close>

lemma scalar_min_3:
  "scalar_min sc 3 =
     (if val sc 1 < val sc 0
      then (if val sc 2 < val sc 1 then 2 else 1)
      else (if val sc 2 < val sc 0 then 2 else 0))"
  by (simp add: scalar_min_def scalar_min_loop.simps)

lemma scalar_min_range: "0 \<le> scalar_min sc 3 \<and> scalar_min sc 3 < 3"
  by (simp add: scalar_min_3)

lemma channel_cases: "0 \<le> k \<Longrightarrow> k < 3 \<Longrightarrow> k = 0 \<or> k = 1 \<or> k = (2::int)"
  by arith

lemma val_scalar_min: "val sc (scalar_min sc 3) = min_value sc"
  by (cases sc) (auto simp: scalar_min_3 min_value_def)

lemma min_value_le:
  assumes "0 \<le> k" "k < 3"
  shows "min_value sc \<le> val sc k"
  using channel_cases [OF assms] by (cases sc) (auto simp: min_value_def)

lemma scalar_min_first:
  assumes "0 \<le> k" "k < scalar_min sc 3"
  shows "min_value sc < val sc k"
proof -
  have "k < 3" using assms scalar_min_range [of sc] by linarith
  from channel_cases [OF assms(1) this] assms(2) show ?thesis
    by (cases sc) (auto simp: scalar_min_3 min_value_def split: if_splits)
qed

section \<open>The scan of find_dark_channel\<close>

lemma cvGet2D_in:
  "0 \<le> y \<Longrightarrow> y < height img \<Longrightarrow> 0 \<le> x \<Longrightarrow> x < width img \<Longrightarrow> cvGet2D img y x = Inr (pixel img y x)"
  by (simp add: cvGet2D_def)

text \<open>One visit keeps the invariant: the pixel is in range, so the read succeeds.\<close>

lemma dark_step_inv:
  assumes bounds: "0 \<le> x1" "x2 \<le> width img" "0 \<le> y1" "y2 \<le> height img"
    and pos: "x1 \<le> X" "X < x2" "y1 \<le> Y" "Y < y2"
    and inv: "dark_inv img x1 y1 x2 y2 Y X st"
  shows "\<exists>st'. dark_step img Y X st = Inr st' \<and> dark_inv img x1 y1 x2 y2 Y (X + 1) st'"
proof -
  from inv obtain px py where
    reg: "in_region x1 y1 x2 y2 py px" and
    st: "st = (pixel img py px, scalar_min (pixel img py px) 3)" and
    le: "\<And>x y. in_region x1 y1 x2 y2 y x \<Longrightarrow> scanned_before y x Y X \<Longrightarrow>
           min_value (pixel img py px) \<le> min_value (pixel img y x)" and
    lt: "\<And>x y. in_region x1 y1 x2 y2 y x \<Longrightarrow> scanned_before y x py px \<Longrightarrow>
           min_value (pixel img py px) < min_value (pixel img y x)"
    unfolding dark_inv_def by blast
  have get: "cvGet2D img Y X = Inr (pixel img Y X)"
    using bounds pos by (intro cvGet2D_in) auto
  have here: "in_region x1 y1 x2 y2 Y X" using pos by (simp add: in_region_def)
  have next_pos: "scanned_before y x Y (X + 1) \<longleftrightarrow> scanned_before y x Y X \<or> (y = Y \<and> x = X)" for y x
    by (auto simp: scanned_before_def)
  show ?thesis
  proof (cases "min_value (pixel img Y X) < min_value (pixel img py px)")
    case True
    then have step: "dark_step img Y X st = Inr (pixel img Y X, scalar_min (pixel img Y X) 3)"
      by (simp add: dark_step_def get st val_scalar_min)
    have "dark_inv img x1 y1 x2 y2 Y (X + 1) (pixel img Y X, scalar_min (pixel img Y X) 3)"
      unfolding dark_inv_def
    proof (rule exI [of _ X], rule exI [of _ Y], intro conjI allI impI)
      fix x y assume "in_region x1 y1 x2 y2 y x \<and> scanned_before y x Y (X + 1)"
      then show "min_value (pixel img Y X) \<le> min_value (pixel img y x)"
        using le [of y x] True by (auto simp: next_pos)
    next
      fix x y assume "in_region x1 y1 x2 y2 y x \<and> scanned_before y x Y X"
      then show "min_value (pixel img Y X) < min_value (pixel img y x)"
        using le [of y x] True by auto
    qed (simp_all add: here)
    with step show ?thesis by blast
  next
    case False
    then have step: "dark_step img Y X st = Inr st"
      by (simp add: dark_step_def get st val_scalar_min)
    have "dark_inv img x1 y1 x2 y2 Y (X + 1) st"
      unfolding dark_inv_def
    proof (rule exI [of _ px], rule exI [of _ py], intro conjI allI impI)
      fix x y assume "in_region x1 y1 x2 y2 y x \<and> scanned_before y x Y (X + 1)"
      then show "min_value (pixel img py px) \<le> min_value (pixel img y x)"
        using le [of y x] False by (auto simp: next_pos)
    next
      fix x y assume "in_region x1 y1 x2 y2 y x \<and> scanned_before y x py px"
      then show "min_value (pixel img py px) < min_value (pixel img y x)"
        using lt [of y x] by auto
    qed (simp_all add: reg st)
    with step show ?thesis by blast
  qed
qed

lemma dark_row_inv:
  assumes bounds: "0 \<le> x1" "x1 \<le> x2" "x2 \<le> width img" "0 \<le> y1" "y2 \<le> height img"
    and pos: "y1 \<le> Y" "Y < y2"
    and inv: "dark_inv img x1 y1 x2 y2 Y x1 st"
  shows "\<exists>st'. for_loop x1 x2 (dark_step img Y) st = Inr st' \<and> dark_inv img x1 y1 x2 y2 (Y + 1) x1 st'"
proof -
  have "\<exists>st'. for_loop x1 x2 (dark_step img Y) st = Inr st' \<and> dark_inv img x1 y1 x2 y2 Y x2 st'"
    using bounds pos inv
    by (intro for_loop_rule [where I = "dark_inv img x1 y1 x2 y2 Y"] dark_step_inv) auto
  moreover have row_end: "in_region x1 y1 x2 y2 y x \<and> scanned_before y x Y x2 \<longleftrightarrow>
      in_region x1 y1 x2 y2 y x \<and> scanned_before y x (Y + 1) x1" for y x
    by (auto simp: in_region_def scanned_before_def)
  have "dark_inv img x1 y1 x2 y2 Y x2 t \<Longrightarrow> dark_inv img x1 y1 x2 y2 (Y + 1) x1 t" for t
    by (simp only: dark_inv_def row_end)
  ultimately show ?thesis by blast
qed

text \<open>
  The scan of a non-empty region inside the image returns, and ends with the first
  pixel in row-major order that attains the smallest minimum of the region.
\<close>

lemma dark_scan_spec:
  assumes "0 \<le> x1" "x1 < x2" "x2 \<le> width img" "0 \<le> y1" "y1 < y2" "y2 \<le> height img"
  shows "\<exists>px py. in_region x1 y1 x2 y2 py px \<and>
           dark_scan img x1 y1 x2 y2 = Inr (pixel img py px, scalar_min (pixel img py px) 3) \<and>
           (\<forall>x y. in_region x1 y1 x2 y2 y x \<longrightarrow>
              min_value (pixel img py px) \<le> min_value (pixel img y x)) \<and>
           (\<forall>x y. in_region x1 y1 x2 y2 y x \<and> scanned_before y x py px \<longrightarrow>
              min_value (pixel img py px) < min_value (pixel img y x))"
proof -
  let ?s0 = "(pixel img y1 x1, scalar_min (pixel img y1 x1) 3)"
  have get: "cvGet2D img y1 x1 = Inr (pixel img y1 x1)"
    using assms by (intro cvGet2D_in) auto
  have init: "dark_inv img x1 y1 x2 y2 y1 x1 ?s0"
    unfolding dark_inv_def
    by (rule exI [of _ x1], rule exI [of _ y1]) (use assms in \<open>auto simp: in_region_def scanned_before_def\<close>)
  have "\<exists>st'. for_loop y1 y2 (\<lambda>y. for_loop x1 x2 (dark_step img y)) ?s0 = Inr st' \<and>
          dark_inv img x1 y1 x2 y2 y2 x1 st'"
    using assms init
    by (intro for_loop_rule [where I = "\<lambda>Y. dark_inv img x1 y1 x2 y2 Y x1"] dark_row_inv) auto
  then obtain st' where run: "for_loop y1 y2 (\<lambda>y. for_loop x1 x2 (dark_step img y)) ?s0 = Inr st'"
    and fin: "dark_inv img x1 y1 x2 y2 y2 x1 st'" by blast
  from fin obtain px py where
    reg: "in_region x1 y1 x2 y2 py px" and
    st: "st' = (pixel img py px, scalar_min (pixel img py px) 3)" and
    le: "\<And>x y. in_region x1 y1 x2 y2 y x \<Longrightarrow> scanned_before y x y2 x1 \<Longrightarrow>
           min_value (pixel img py px) \<le> min_value (pixel img y x)" and
    lt: "\<forall>x y. in_region x1 y1 x2 y2 y x \<and> scanned_before y x py px \<longrightarrow>
           min_value (pixel img py px) < min_value (pixel img y x)"
    unfolding dark_inv_def by blast
  have "dark_scan img x1 y1 x2 y2 = Inr (pixel img py px, scalar_min (pixel img py px) 3)"
    by (simp add: dark_scan_def get run st)
  moreover have "\<forall>x y. in_region x1 y1 x2 y2 y x \<longrightarrow>
                   min_value (pixel img py px) \<le> min_value (pixel img y x)"
    using le by (auto simp: in_region_def scanned_before_def)
  ultimately show ?thesis using reg lt by blast
qed

text \<open>Equations to run the scan on an example.\<close>

lemmas eval_simps = for_loop.simps scalar_min_3 dark_step_def dark_scan_def find_dark_channel_def
  cvGet2D_def pixel_def

section \<open>The array of find_light_intensity\<close>

lemma init_top_eq: "init_top i n tops = tops @ replicate (nat (n - i)) unset_slot"
proof (induction i n tops rule: init_top.induct)
  case (1 i n tops)
  show ?case
  proof (cases "i < n")
    case True
    then have "nat (n - i) = Suc (nat (n - (i + 1)))" by linarith
    with True 1 show ?thesis
      by (subst init_top.simps) (simp add: replicate_app_Cons_same)
  next
    case False
    then show ?thesis by (subst init_top.simps) simp
  qed
qed

lemma length_place [simp]: "length (place ts p) = length ts"
  by (induction ts) auto

text \<open>What \<^const>\<open>place\<close> does, by the first slot that passes the test.\<close>

lemma place_unchanged:
  "(\<forall>i<length ts. \<not> slot_below (ts ! i) p) \<Longrightarrow> place ts p = ts"
proof (induction ts)
  case Nil
  then show ?case by simp
next
  case (Cons t ts)
  from Cons.prems have "\<not> slot_below t p" by auto
  moreover have "\<forall>i<length ts. \<not> slot_below (ts ! i) p"
    using Cons.prems by fastforce
  ultimately show ?case using Cons.IH by simp
qed

lemma place_first:
  "i < length ts \<Longrightarrow> slot_below (ts ! i) p \<Longrightarrow> (\<forall>j<i. \<not> slot_below (ts ! j) p) \<Longrightarrow>
   place ts p = ts[i := p]"
proof (induction ts arbitrary: i)
  case Nil
  then show ?case by simp
next
  case (Cons t ts)
  show ?case
  proof (cases i)
    case 0
    with Cons.prems show ?thesis by simp
  next
    case (Suc k)
    with Cons.prems have "\<not> slot_below t p" by auto
    moreover have "k < length ts" "slot_below (ts ! k) p" "\<forall>j<k. \<not> slot_below (ts ! j) p"
      using Cons.prems Suc by auto
    ultimately show ?thesis using Cons.IH [of k] Suc by simp
  qed
qed

lemma slot_below_lex:
  "slot_below t p \<longleftrightarrow> (cv_val t, cv_intensity t) < (cv_val p, cv_intensity p)"
  by (auto simp: slot_below_def less_prod_def)

text \<open>The last loop computes a maximum.\<close>

lemma max_loop_Max: "max_loop ts m = Max (insert m (cv_intensity ` set ts))"
proof (induction ts arbitrary: m)
  case Nil
  then show ?case by simp
next
  case (Cons t ts)
  have "(if m < cv_intensity t then cv_intensity t else m) = max m (cv_intensity t)"
    by (simp add: max_def)
  then have "max_loop (t # ts) m = Max (insert (max m (cv_intensity t)) (cv_intensity ` set ts))"
    using Cons.IH by simp
  also have "\<dots> = Max (insert m (cv_intensity ` set (t # ts)))"
  proof (cases "ts = []")
    case True
    then show ?thesis by (simp add: max.commute)
  next
    case False
    then show ?thesis by (simp add: max.assoc)
  qed
  finally show ?case .
qed

lemma upto_snoc: "i \<le> j \<Longrightarrow> [i..j] = [i..j - 1] @ [j]"
  using upto_rec2 [of i j] by simp

text \<open>A loop whose body cannot fail is a fold over its range.\<close>

lemma for_loop_foldl:
  assumes "i \<le> n" and "\<And>j t. i \<le> j \<Longrightarrow> j < n \<Longrightarrow> body j t = Inr (g t j)"
  shows "for_loop i n body s = Inr (foldl g s [i..n - 1])"
proof -
  have "\<exists>s'. for_loop i n body s = Inr s' \<and> s' = foldl g s [i..n - 1]"
  proof (rule for_loop_rule [where I = "\<lambda>j t. t = foldl g s [i..j - 1]"])
    show "i \<le> n" by fact
    show "s = foldl g s [i..i - 1]" by simp
    fix j t assume "i \<le> j" "j < n" "t = foldl g s [i..j - 1]"
    then show "\<exists>t'. body j t = Inr t' \<and> t' = foldl g s [i..j + 1 - 1]"
      using assms(2) [of j t] upto_snoc [of i j] by simp
  qed
  then show ?thesis by simp
qed

lemma foldl_rows:
  "foldl (\<lambda>t y. foldl (\<lambda>t x. F t (y, x)) t xs) s ys =
   foldl F s (concat (map (\<lambda>y. map (\<lambda>x. (y, x)) xs) ys))"
  by (induction ys arbitrary: s) (simp_all add: foldl_map)

lemma light_step_in:
  assumes "0 \<le> y" "y < height img" "y < height gray" "0 \<le> x" "x < width img" "x < width gray"
  shows "light_step img gray dc y x tops = Inr (place tops (candidate img gray dc y x))"
  using assms by (simp add: light_step_def cvGet2D_def candidate_def)

lemma light_loops_foldl:
  assumes "0 \<le> x1" "x1 \<le> x2" "x2 \<le> width img" "x2 \<le> width gray"
    and "0 \<le> y1" "y1 \<le> y2" "y2 \<le> height img" "y2 \<le> height gray"
  shows "for_loop y1 y2 (\<lambda>y. for_loop x1 x2 (light_step img gray dc y)) s =
         Inr (foldl place s (map (\<lambda>(y, x). candidate img gray dc y x) (row_major x1 y1 x2 y2)))"
proof -
  let ?F = "\<lambda>t (c :: int \<times> int). place t (candidate img gray dc (fst c) (snd c))"
  have row: "for_loop x1 x2 (light_step img gray dc y) t =
             Inr (foldl (\<lambda>t x. ?F t (y, x)) t [x1..x2 - 1])"
    if "y1 \<le> y" "y < y2" for y t
    using assms that by (intro for_loop_foldl) (auto intro!: light_step_in)
  have "for_loop y1 y2 (\<lambda>y. for_loop x1 x2 (light_step img gray dc y)) s =
        Inr (foldl (\<lambda>t y. foldl (\<lambda>t x. ?F t (y, x)) t [x1..x2 - 1]) s [y1..y2 - 1])"
    by (rule for_loop_foldl) (use assms(6) row in auto)
  also have "foldl (\<lambda>t y. foldl (\<lambda>t x. ?F t (y, x)) t [x1..x2 - 1]) s [y1..y2 - 1] =
             foldl ?F s (row_major x1 y1 x2 y2)"
    unfolding row_major_def by (rule foldl_rows)
  also have "\<dots> = foldl place s (map (\<lambda>(y, x). candidate img gray dc y x) (row_major x1 y1 x2 y2))"
    by (simp add: foldl_map case_prod_beta)
  finally show ?thesis .
qed

lemma length_foldl_place [simp]: "length (foldl place ts ps) = length ts"
  by (induction ps arbitrary: ts) auto

lemma place_pred:
  "list_all Q ts \<Longrightarrow> Q p \<Longrightarrow> list_all Q (place ts p)"
  by (induction ts) auto

lemma foldl_place_pred:
  "list_all Q ts \<Longrightarrow> list_all Q ps \<Longrightarrow> list_all Q (foldl place ts ps)"
  by (induction ps arbitrary: ts) (auto intro: place_pred)

lemma byte_nonneg: "0 \<le> real (unat w)"
  by (rule of_nat_0_le_iff)

lemma pixel_nonneg: "0 \<le> val (pixel img y x) k"
  by (simp add: pixel_def byte_nonneg del: of_nat_unat)

lemma candidate_intensity_nonneg: "0 \<le> cv_intensity (candidate img gray dc y x)"
  by (simp add: candidate_def pixel_nonneg)

lemma candidate_val_nonneg: "0 \<le> cv_val (candidate img gray dc y x)"
  by (simp add: candidate_def pixel_nonneg)

text \<open>
  The scan of \<^const>\<open>find_light_intensity\<close> places the pixels of the region in
  row-major order.
\<close>

lemma light_scan_foldl:
  assumes "0 \<le> x1" "x1 < x2" "x2 \<le> width img" "x2 \<le> width gray"
    and "0 \<le> y1" "y1 < y2" "y2 \<le> height img" "y2 \<le> height gray"
  shows "\<exists>dc. find_dark_channel img x1 y1 x2 y2 = Inr dc \<and>
           light_scan img gray x1 y1 x2 y2 =
             Inr (foldl place (replicate (nat (top_num x1 y1 x2 y2)) unset_slot)
                    (map (\<lambda>(y, x). candidate img gray dc y x) (row_major x1 y1 x2 y2)))"
proof -
  from dark_scan_spec [OF assms(1,2,3,5,6,7)] obtain st where "dark_scan img x1 y1 x2 y2 = Inr st"
    by blast
  then have dc: "find_dark_channel img x1 y1 x2 y2 = Inr (snd st)"
    by (simp add: find_dark_channel_def)
  have "light_scan img gray x1 y1 x2 y2 =
          Inr (foldl place (replicate (nat (top_num x1 y1 x2 y2)) unset_slot)
                 (map (\<lambda>(y, x). candidate img gray (snd st) y x) (row_major x1 y1 x2 y2)))"
    using assms by (simp add: light_scan_def dc light_loops_foldl init_top_eq)
  with dc show ?thesis by blast
qed

lemma max_loop_slots:
  assumes "ts \<noteq> []" "list_all (\<lambda>t. - 1 \<le> cv_intensity t) ts"
  shows "\<exists>t\<in>set ts. max_loop ts (- 1) = cv_intensity t \<and> (\<forall>u\<in>set ts. cv_intensity u \<le> cv_intensity t)"
proof -
  let ?S = "cv_intensity ` set ts"
  have fin: "finite ?S" "?S \<noteq> {}" using assms(1) by auto
  from assms(1) obtain t where "t \<in> set ts" by (cases ts) auto
  with assms(2) have "cv_intensity t \<in> ?S" "- 1 \<le> cv_intensity t"
    by (auto simp: list_all_iff)
  then have "- 1 \<le> Max ?S"
    using fin by (auto simp: Max_ge_iff)
  then have "max_loop ts (- 1) = Max ?S"
    using fin by (simp add: max_loop_Max)
  moreover from Max_in [OF fin] obtain t where t: "t \<in> set ts" "Max ?S = cv_intensity t"
    by auto
  moreover have "\<forall>u\<in>set ts. cv_intensity u \<le> Max ?S" using fin by simp
  ultimately show ?thesis by metis
qed

lemma row_major_product: "row_major x1 y1 x2 y2 = List.product [y1..y2 - 1] [x1..x2 - 1]"
  by (simp add: row_major_def product_concat_map)

lemma distinct_row_major: "distinct (row_major x1 y1 x2 y2)"
  by (simp add: row_major_product distinct_product)

lemma set_row_major: "(y, x) \<in> set (row_major x1 y1 x2 y2) \<longleftrightarrow> in_region x1 y1 x2 y2 y x"
  by (auto simp: row_major_product in_region_def)

lemma foldl_place_head:
  "(\<forall>q\<in>set qs. \<not> slot_below p q) \<Longrightarrow> foldl place (p # ts) qs = p # foldl place ts qs"
  by (induction qs arbitrary: ts) auto

text \<open>
  The scan on a list of candidates in which \<open>p\<close> exceeds every other one in both
  components: \<open>p\<close> ends in the first slot and its intensity is the result.
\<close>

lemma max_loop_unique_brightest:
  assumes len: "ts \<noteq> []"
    and init: "list_all (\<lambda>t. cv_val t < cv_val p \<and> cv_intensity t < cv_intensity p) ts"
    and before: "list_all (\<lambda>t. cv_val t < cv_val p \<and> cv_intensity t < cv_intensity p) as"
    and after: "list_all (\<lambda>t. cv_val t < cv_val p \<and> cv_intensity t < cv_intensity p) bs"
    and sentinel: "- 1 < cv_intensity p"
  shows "max_loop (foldl place ts (as @ p # bs)) (- 1) = cv_intensity p"
proof -
  let ?Q = "\<lambda>t. cv_val t < cv_val p \<and> cv_intensity t < cv_intensity p"
  define t1 where "t1 = foldl place ts as"
  have q1: "list_all ?Q t1" unfolding t1_def using init before by (rule foldl_place_pred)
  have "length t1 = length ts" by (simp add: t1_def)
  with len obtain t rest where t1: "t1 = t # rest" by (cases t1) auto
  with q1 have "slot_below t p" "list_all ?Q rest" by (auto simp: slot_below_def)
  then have placed: "place t1 p = p # rest" by (simp add: t1)
  have "\<forall>q\<in>set bs. \<not> slot_below p q"
    using after by (auto simp: list_all_iff slot_below_def)
  then have "foldl place (p # rest) bs = p # foldl place rest bs"
    by (rule foldl_place_head)
  then have final: "foldl place ts (as @ p # bs) = p # foldl place rest bs"
    using placed by (simp add: t1_def)
  have "list_all ?Q (foldl place rest bs)"
    using \<open>list_all ?Q rest\<close> after by (rule foldl_place_pred)
  then have below: "\<forall>v\<in>cv_intensity ` set (foldl place rest bs). v < cv_intensity p"
    by (auto simp: list_all_iff)
  have "Max (insert (- 1) (cv_intensity ` set (p # foldl place rest bs))) = cv_intensity p"
  proof (rule Max_eqI)
    show "finite (insert (- 1) (cv_intensity ` set (p # foldl place rest bs)))" by simp
    show "cv_intensity p \<in> insert (- 1) (cv_intensity ` set (p # foldl place rest bs))" by simp
    fix v assume "v \<in> insert (- 1) (cv_intensity ` set (p # foldl place rest bs))"
    then show "v \<le> cv_intensity p" using below sentinel by auto
  qed
  then show ?thesis by (simp only: final max_loop_Max)
qed

text \<open>
  A pixel that exceeds every other pixel of the region on the dark channel and in the
  grayscale image takes the first slot and gives the result.
\<close>

lemma find_light_intensity_unique:
  assumes bounds: "0 \<le> x1" "x1 < x2" "x2 \<le> width img" "x2 \<le> width gray"
      "0 \<le> y1" "y1 < y2" "y2 \<le> height img" "y2 \<le> height gray"
    and size: "1 \<le> top_num x1 y1 x2 y2"
    and reg: "in_region x1 y1 x2 y2 py px"
    and dc: "find_dark_channel img x1 y1 x2 y2 = Inr dc"
    and uniq: "\<forall>x y. in_region x1 y1 x2 y2 y x \<and> (y, x) \<noteq> (py, px) \<longrightarrow>
        val (pixel img y x) dc < val (pixel img py px) dc \<and>
        val (pixel gray y x) 0 < val (pixel gray py px) 0"
  shows "find_light_intensity img gray x1 y1 x2 y2 = Inr (val (pixel gray py px) 0)"
proof -
  let ?cand = "\<lambda>(y, x). candidate img gray dc y x"
  let ?p = "candidate img gray dc py px"
  let ?Q = "\<lambda>t. cv_val t < cv_val ?p \<and> cv_intensity t < cv_intensity ?p"
  let ?ts = "replicate (nat (top_num x1 y1 x2 y2)) unset_slot"
  from light_scan_foldl [OF bounds] dc
  have scan: "light_scan img gray x1 y1 x2 y2 = Inr (foldl place ?ts (map ?cand (row_major x1 y1 x2 y2)))"
    by auto
  have "(py, px) \<in> set (row_major x1 y1 x2 y2)" using reg by (simp add: set_row_major)
  then obtain cs ds where split: "row_major x1 y1 x2 y2 = cs @ (py, px) # ds"
    by (auto simp: in_set_conv_decomp)
  with distinct_row_major [of x1 y1 x2 y2] have notin: "(py, px) \<notin> set cs" "(py, px) \<notin> set ds"
    by auto
  have others: "?Q (?cand c)" if "c \<in> set cs \<union> set ds" for c
  proof -
    obtain y x where c: "c = (y, x)" by (cases c)
    with that split have "(y, x) \<in> set (row_major x1 y1 x2 y2)" by auto
    then have "in_region x1 y1 x2 y2 y x" by (simp add: set_row_major)
    moreover have "(y, x) \<noteq> (py, px)" using that notin c by auto
    ultimately show ?thesis using uniq c by (simp add: candidate_def)
  qed
  have p0: "0 \<le> cv_val ?p" "0 \<le> cv_intensity ?p"
    by (rule candidate_val_nonneg, rule candidate_intensity_nonneg)
  have "max_loop (foldl place ?ts (map ?cand cs @ ?p # map ?cand ds)) (- 1) = cv_intensity ?p"
  proof (rule max_loop_unique_brightest)
    show "?ts \<noteq> []" using size by auto
    show "list_all ?Q ?ts" using p0 by (simp add: list_all_iff unset_slot_def)
    show "list_all ?Q (map ?cand cs)" using others by (simp add: list_all_iff)
    show "list_all ?Q (map ?cand ds)" using others by (simp add: list_all_iff)
    show "- 1 < cv_intensity ?p" using p0 by simp
  qed
  then have "max_loop (foldl place ?ts (map ?cand (row_major x1 y1 x2 y2))) (- 1) = cv_intensity ?p"
    by (simp add: split)
  then show ?thesis
    by (simp add: find_light_intensity_def scan candidate_def)
qed

section \<open>The loops of main, pixel by pixel\<close>

lemma window_bounds:
  assumes "0 \<le> x" "x < w"
  shows "0 \<le> x_low x \<and> x_low x \<le> x \<and> x < x_high w x \<and> x_high w x \<le> w"
  using assms by (simp add: x_low_def x_high_def MAP_WIDTH_def)

lemma window_bounds_y:
  assumes "0 \<le> y" "y < h"
  shows "0 \<le> y_low y \<and> y_low y \<le> y \<and> y < y_high h y \<and> y_high h y \<le> h"
  using assms by (simp add: y_low_def y_high_def MAP_WIDTH_def)

lemma window_channel:
  assumes "0 \<le> x" "x < width img" "0 \<le> y" "y < height img"
  shows "\<exists>dc. find_dark_channel img (x_low x) (y_low y)
                (x_high (width img) x) (y_high (height img) y) = Inr dc \<and> 0 \<le> dc \<and> dc < 3"
proof -
  from window_bounds [OF assms(1,2)] window_bounds_y [OF assms(3,4)]
  have "0 \<le> x_low x" "x_low x < x_high (width img) x" "x_high (width img) x \<le> width img"
    "0 \<le> y_low y" "y_low y < y_high (height img) y" "y_high (height img) y \<le> height img"
    by auto
  from dark_scan_spec [OF this] obtain px py where
    "dark_scan img (x_low x) (y_low y) (x_high (width img) x) (y_high (height img) y) =
       Inr (pixel img py px, scalar_min (pixel img py px) 3)"
    by blast
  then show ?thesis
    using scalar_min_range [of "pixel img py px"] by (simp add: find_dark_channel_def)
qed

lemma channel_loop_3:
  assumes "0 \<le> x" "x < width img" "0 \<le> y" "y < height img"
  shows "for_loop 0 3 (channel_step img L t y x) (cvScalarAll 0) =
         Inr (CvScalar ((val (pixel img y x) 0 - L) / max t 0.54 + L)
                       ((val (pixel img y x) 1 - L) / max t 0.54 + L)
                       ((val (pixel img y x) 2 - L) / max t 0.54 + L) 0)"
  using assms by (simp add: for_loop.simps channel_step_def cvGet2D_def cvScalarAll_def)

text \<open>One visit of the loops of \<^verbatim>\<open>main\<close> writes the two cells of its pixel and no other.\<close>

lemma pixel_step_inv:
  assumes pos: "0 \<le> X" "X < width img" "0 \<le> Y" "Y < height img"
    and inv: "main_inv img L Y X st"
  shows "\<exists>st'. pixel_step img L Y X st = Inr st' \<and> main_inv img L Y (X + 1) st'"
proof -
  from window_channel [OF pos] obtain dc where
    dc: "find_dark_channel img (x_low X) (y_low Y)
           (x_high (width img) X) (y_high (height img) Y) = Inr dc" by blast
  let ?t = "1 - val (pixel img Y X) dc / L"
  let ?o = "CvScalar ((val (pixel img Y X) 0 - L) / max ?t 0.54 + L)
                     ((val (pixel img Y X) 1 - L) / max ?t 0.54 + L)
                     ((val (pixel img Y X) 2 - L) / max ?t 0.54 + L) 0"
  let ?m' = "(fst st)\<lparr>cells := (cells (fst st))((Y, X) \<mapsto> CvScalar (?t * 255) 0 0 0)\<rparr>"
  let ?out' = "(snd st)\<lparr>cells := (cells (snd st))((Y, X) \<mapsto> ?o)\<rparr>"
  from inv have size: "owidth (fst st) = width img" "oheight (fst st) = height img"
    "owidth (snd st) = width img" "oheight (snd st) = height img" "onChannels (snd st) = 3"
    and earlier: "\<And>x y. in_region 0 0 (width img) (height img) y x \<Longrightarrow> scanned_before y x Y X \<Longrightarrow>
        pixel_done img L st y x"
    by (auto simp: main_inv_def)
  have step: "pixel_step img L Y X st = Inr (?m', ?out')"
    using pos size
    by (simp add: pixel_step_def dc cvGet2D_in channel_loop_3 cvSet2D_def cvScalar_def Let_def)
  have "pixel_done img L (?m', ?out') y x"
    if "in_region 0 0 (width img) (height img) y x" "scanned_before y x Y (X + 1)" for y x
  proof (cases "(y, x) = (Y, X)")
    case True
    then show ?thesis using dc by (simp add: pixel_done_def)
  next
    case False
    with that(2) have "scanned_before y x Y X" by (auto simp: scanned_before_def)
    from earlier [OF that(1) this] False show ?thesis by (auto simp: pixel_done_def)
  qed
  then have "main_inv img L Y (X + 1) (?m', ?out')"
    using size by (simp add: main_inv_def)
  with step show ?thesis by blast
qed

lemma pixel_row_inv:
  assumes pos: "0 \<le> Y" "Y < height img" and w: "0 \<le> width img"
    and inv: "main_inv img L Y 0 st"
  shows "\<exists>st'. for_loop 0 (width img) (pixel_step img L Y) st = Inr st' \<and>
           main_inv img L (Y + 1) 0 st'"
proof -
  have "\<exists>st'. for_loop 0 (width img) (pixel_step img L Y) st = Inr st' \<and>
          main_inv img L Y (width img) st'"
    by (rule for_loop_rule [where I = "main_inv img L Y"]) (use pos w inv pixel_step_inv in auto)
  moreover have row_end: "in_region 0 0 (width img) (height img) y x \<and> scanned_before y x Y (width img) \<longleftrightarrow>
      in_region 0 0 (width img) (height img) y x \<and> scanned_before y x (Y + 1) 0" for y x
    by (auto simp: in_region_def scanned_before_def)
  have "main_inv img L Y (width img) t \<Longrightarrow> main_inv img L (Y + 1) 0 t" for t
    by (simp add: main_inv_def row_end)
  ultimately show ?thesis by blast
qed

text \<open>The loops of \<^verbatim>\<open>main\<close> complete, and every pixel of the image is done.\<close>

lemma defog_loops_spec:
  assumes "0 \<le> width img" "0 \<le> height img" "nChannels img = 3"
  shows "\<exists>st. defog_loops img L = Inr st \<and>
           (\<forall>x y. in_region 0 0 (width img) (height img) y x \<longrightarrow> pixel_done img L st y x)"
proof -
  let ?s0 = "(cvCreateImage (width img) (height img) 1,
              cvCreateImage (width img) (height img) (nChannels img))"
  have init: "main_inv img L 0 0 ?s0"
    using assms(3) by (auto simp: main_inv_def cvCreateImage_def in_region_def scanned_before_def)
  have "\<exists>st. for_loop 0 (height img) (\<lambda>y. for_loop 0 (width img) (pixel_step img L y)) ?s0 = Inr st \<and>
          main_inv img L (height img) 0 st"
    by (rule for_loop_rule [where I = "\<lambda>Y. main_inv img L Y 0"])
       (use assms init pixel_row_inv in auto)
  then obtain st where run: "defog_loops img L = Inr st" and fin: "main_inv img L (height img) 0 st"
    by (auto simp: defog_loops_def)
  have "pixel_done img L st y x" if "in_region 0 0 (width img) (height img) y x" for y x
    using fin that by (auto simp: main_inv_def in_region_def scanned_before_def)
  with run show ?thesis by blast
qed

section \<open>Small regions, the whole run, and facts about the examples\<close>

text \<open>The truncated product is the integer quotient by 1000.\<close>

lemma top_num_div:
  assumes "0 \<le> a"
  shows "trunc (real_of_int a * 0.001) = a div 1000"
proof -
  have "real_of_int a * 0.001 = real_of_int a / real_of_int 1000" by simp
  then have "\<lfloor>real_of_int a * 0.001\<rfloor> = a div 1000"
    by (simp only: floor_divide_of_int_eq)
  moreover have "0 \<le> real_of_int a * 0.001" using assms by simp
  ultimately show ?thesis by (simp add: trunc_def)
qed

lemma img_big_bounds:
  "(0::int) \<le> 0" "(0::int) < 50" "50 \<le> width img_big" "50 \<le> width gray_big"
  "(0::int) < 20" "20 \<le> height img_big" "20 \<le> height gray_big"
  by (simp_all add: img_big_def gray_big_def)

lemma top_num_big: "top_num 0 0 50 20 = 1"
  by (simp add: top_num_def trunc_def)

lemma dark_channel_big: "find_dark_channel img_big 0 0 50 20 = Inr 2"
  by (simp add: eval_simps img_big_def)

lemma big_brightest:
  "\<forall>x y. in_region 0 0 50 20 y x \<and> (y, x) \<noteq> (7, 31) \<longrightarrow>
      val (pixel img_big y x) 2 < val (pixel img_big 7 31) 2 \<and>
      val (pixel gray_big y x) 0 < val (pixel gray_big 7 31) 0"
  by (auto simp: pixel_def img_big_def gray_big_def)

lemma light_intensity_big: "find_light_intensity img_big gray_big 0 0 50 20 = Inr 235"
proof -
  have size: "1 \<le> top_num 0 0 50 20" by (simp add: top_num_big)
  have reg: "in_region 0 0 50 20 7 31" by (simp add: in_region_def)
  have "find_light_intensity img_big gray_big 0 0 50 20 = Inr (val (pixel gray_big 7 31) 0)"
    by (rule find_light_intensity_unique
          [OF img_big_bounds(1,2,3,4,1,5,6,7) size reg dark_channel_big big_brightest])
  then show ?thesis by (simp add: pixel_def gray_big_def)
qed

lemma img_small_dims:
  "(0::int) < width img_small" "(0::int) < height img_small" "nChannels img_small = 3"
  "width gray_small = width img_small" "height gray_small = height img_small"
  "width img_small * height img_small < 1000"
  by (simp_all add: img_small_def gray_small_def)

lemma window_small_origin:
  "find_dark_channel img_small (x_low 0) (y_low 0)
     (x_high (width img_small) 0) (y_high (height img_small) 0) = Inr 1"
proof -
  have "x_low 0 = 0" "y_low 0 = 0" "x_high (width img_small) 0 = 3" "y_high (height img_small) 0 = 2"
    by (simp_all add: x_low_def y_low_def x_high_def y_high_def MAP_WIDTH_def img_small_def)
  moreover have "find_dark_channel img_small 0 0 3 2 = Inr 1"
    by (simp add: eval_simps img_small_def)
  ultimately show ?thesis by simp
qed

text \<open>
  The bright pixel of the 50 by 20 example: its window is \<open>[21, 41) \<times> [0, 17)\<close>, with
  dark channel 2, and the light intensity of the image is 235.
\<close>

lemma img_big_dims:
  "(0::int) < width img_big" "(0::int) < height img_big" "nChannels img_big = 3"
  "in_region 0 0 (width img_big) (height img_big) 7 31"
  by (simp_all add: img_big_def in_region_def)

lemma window_big_bright:
  "find_dark_channel img_big (x_low 31) (y_low 7)
     (x_high (width img_big) 31) (y_high (height img_big) 7) = Inr 2"
proof -
  have "x_low 31 = 21" "y_low 7 = 0" "x_high (width img_big) 31 = 41" "y_high (height img_big) 7 = 17"
    by (simp_all add: x_low_def y_low_def x_high_def y_high_def MAP_WIDTH_def img_big_def)
  moreover have "find_dark_channel img_big 21 0 41 17 = Inr 2"
    by (simp add: eval_simps img_big_def)
  ultimately show ?thesis by simp
qed

lemma light_intensity_big_whole:
  "find_light_intensity img_big gray_big 0 0 (width img_big) (height img_big) = Inr 235"
  using light_intensity_big by (simp add: img_big_def)

lemma foldl_place_Nil [simp]: "foldl place [] ps = []"
  by (induction ps) auto

text \<open>A region of fewer than 1000 pixels: no slot, and the result is the initial \<open>-1\<close>.\<close>

lemma find_light_intensity_small_region:
  assumes "0 \<le> x1" "x1 < x2" "x2 \<le> width img" "x2 \<le> width gray"
    and "0 \<le> y1" "y1 < y2" "y2 \<le> height img" "y2 \<le> height gray"
    and "(x2 - x1) * (y2 - y1) < 1000"
  shows "top_num x1 y1 x2 y2 = 0 \<and> light_scan img gray x1 y1 x2 y2 = Inr [] \<and>
         find_light_intensity img gray x1 y1 x2 y2 = Inr (- 1)"
proof -
  have area: "0 \<le> (x2 - x1) * (y2 - y1)" using assms by simp
  have "top_num x1 y1 x2 y2 = (x2 - x1) * (y2 - y1) div 1000"
    unfolding top_num_def by (rule top_num_div [OF area])
  with area assms(9) have tn: "top_num x1 y1 x2 y2 = 0" by simp
  from light_scan_foldl [OF assms(1-8)] have scan: "light_scan img gray x1 y1 x2 y2 = Inr []"
    by (auto simp: tn)
  then show ?thesis by (simp add: tn find_light_intensity_def)
qed

text \<open>The whole run completes on every colour image with a pixel.\<close>

lemma defog_main_runs:
  assumes "0 < width img" "0 < height img" "nChannels img = 3"
    "width gray = width img" "height gray = height img"
  shows "\<exists>L st. find_light_intensity img gray 0 0 (width img) (height img) = Inr L \<and>
           defog_loops img L = Inr st \<and> defog_main img gray = Inr (L, fst st, snd st)"
proof -
  have "\<exists>dc. find_dark_channel img 0 0 (width img) (height img) = Inr dc \<and>
          light_scan img gray 0 0 (width img) (height img) =
            Inr (foldl place (replicate (nat (top_num 0 0 (width img) (height img))) unset_slot)
                   (map (\<lambda>(y, x). candidate img gray dc y x) (row_major 0 0 (width img) (height img))))"
    by (rule light_scan_foldl) (use assms in auto)
  then obtain L where L: "find_light_intensity img gray 0 0 (width img) (height img) = Inr L"
    by (auto simp: find_light_intensity_def)
  from defog_loops_spec [of img L] assms obtain st where "defog_loops img L = Inr st" by auto
  with L show ?thesis by (auto simp: defog_main_def)
qed

section \<open>The claims\<close>

text \<open>
  Claim C1. For a colour image with at least one pixel and a light intensity \<open>L\<close> other
  than zero, the loops of \<^verbatim>\<open>main\<close> complete, their results are the results of the run
  whenever \<open>L\<close> is the light intensity \<^const>\<open>find_light_intensity\<close> returns for the
  image, and for every pixel \<open>(x, y)\<close> the scalar written to the transmission map has
  \<open>t * 255\<close> in its first component, where \<open>t = 1 - v / L\<close> and \<open>v\<close> is the value of the
  pixel on the channel that \<^const>\<open>find_dark_channel\<close> returns for the window of the
  pixel. No bound is applied to \<open>t\<close> before it is written. When \<open>L\<close> is positive, \<open>t\<close> is
  at most 1, the channel values being bytes and so not negative. The map cell is the
  scalar handed to \<^verbatim>\<open>cvSet2D\<close>.
\<close>

theorem transmission_map_values:
  assumes "0 < width img" "0 < height img" "nChannels img = 3" "L \<noteq> 0"
  shows "\<exists>m out. defog_loops img L = Inr (m, out) \<and>
           (\<forall>gray. find_light_intensity img gray 0 0 (width img) (height img) = Inr L \<longrightarrow>
              defog_main img gray = Inr (L, m, out)) \<and>
           (\<forall>x y. in_region 0 0 (width img) (height img) y x \<longrightarrow>
              (\<exists>dc. find_dark_channel img (x_low x) (y_low y)
                      (x_high (width img) x) (y_high (height img) y) = Inr dc \<and>
                 cells m (y, x) =
                   Some (cvScalar ((1 - val (pixel img y x) dc / L) * 255) 0 0 0) \<and>
                 (0 < L \<longrightarrow> 1 - val (pixel img y x) dc / L \<le> 1)))"
proof -
  from defog_loops_spec [of img L] assms obtain st where
    run: "defog_loops img L = Inr st" and
    cell: "\<And>x y. in_region 0 0 (width img) (height img) y x \<Longrightarrow> pixel_done img L st y x"
    by auto
  have main: "defog_main img gray = Inr (L, fst st, snd st)"
    if "find_light_intensity img gray 0 0 (width img) (height img) = Inr L" for gray
    using that by (simp add: defog_main_def run)
  have "\<exists>dc. find_dark_channel img (x_low x) (y_low y)
               (x_high (width img) x) (y_high (height img) y) = Inr dc \<and>
          cells (fst st) (y, x) = Some (cvScalar ((1 - val (pixel img y x) dc / L) * 255) 0 0 0) \<and>
          (0 < L \<longrightarrow> 1 - val (pixel img y x) dc / L \<le> 1)"
    if "in_region 0 0 (width img) (height img) y x" for x y
  proof -
    from cell [OF that] obtain dc where
      dc: "find_dark_channel img (x_low x) (y_low y)
             (x_high (width img) x) (y_high (height img) y) = Inr dc" and
      m: "cells (fst st) (y, x) = Some (CvScalar ((1 - val (pixel img y x) dc / L) * 255) 0 0 0)"
      by (auto simp: pixel_done_def)
    have "0 < L \<longrightarrow> 0 \<le> val (pixel img y x) dc / L"
      using pixel_nonneg [of img y x dc] by simp
    with dc m show ?thesis by (auto simp: cvScalar_def)
  qed
  with run main show ?thesis by (cases st) auto
qed

text \<open>
  The run on the 50 by 20 example: the light intensity is 235, and the bright pixel at
  row 7, column 31 has the value 240 on the dark channel of its window, so
  \<open>t = -1/47\<close>, below the range \<open>[0, 1]\<close>, and the scalar written is \<open>-255/47\<close>.
\<close>

theorem transmission_map_values_witness:
  "(0::int) < width img_big \<and> (0::int) < height img_big \<and> nChannels img_big = 3 \<and>
   (235::real) \<noteq> 0 \<and> (0::real) < 235 \<and>
   find_light_intensity img_big gray_big 0 0 (width img_big) (height img_big) = Inr 235 \<and>
   in_region 0 0 (width img_big) (height img_big) 7 31 \<and>
   (\<exists>m out. defog_main img_big gray_big = Inr (235, m, out) \<and>
      cells m (7, 31) = Some (cvScalar (- (255 / 47)) 0 0 0) \<and>
      1 - val (pixel img_big 7 31) 2 / 235 = - (1 / 47) \<and>
      1 - val (pixel img_big 7 31) 2 / 235 \<le> (1::real))"
proof -
  have L: "(235::real) \<noteq> 0" "(0::real) < 235" by simp_all
  from transmission_map_values [OF img_big_dims(1,2,3) L(1)] light_intensity_big_whole
    img_big_dims(4)
  obtain m out dc where
    run: "defog_main img_big gray_big = Inr (235, m, out)" and
    dc: "find_dark_channel img_big (x_low 31) (y_low 7)
           (x_high (width img_big) 31) (y_high (height img_big) 7) = Inr dc" and
    cell: "cells m (7, 31) = Some (cvScalar ((1 - val (pixel img_big 7 31) dc / 235) * 255) 0 0 0)" and
    le: "0 < (235::real) \<longrightarrow> 1 - val (pixel img_big 7 31) dc / 235 \<le> 1"
    by blast
  from dc have dc2: "dc = 2" by (simp add: window_big_bright)
  have t: "1 - val (pixel img_big 7 31) 2 / 235 = - (1 / 47)"
    by (simp add: pixel_def img_big_def)
  then have "(1 - val (pixel img_big 7 31) 2 / 235) * 255 = - (255 / 47)" by simp
  with cell dc2 have "cells m (7, 31) = Some (cvScalar (- (255 / 47)) 0 0 0)" by simp
  moreover have "1 - val (pixel img_big 7 31) 2 / 235 \<le> (1::real)" using le dc2 by simp
  ultimately show ?thesis
    using run t img_big_dims L light_intensity_big_whole by blast
qed

text \<open>
  Claim C2. Under the same conditions, for every pixel \<open>(x, y)\<close> and every channel
  \<open>c\<close> of the three, the scalar written to the output image has in component \<open>c\<close> the
  value \<open>(I c - L) / max t 0.54 + L\<close>, where \<open>I c\<close> is the value of the input pixel on
  channel \<open>c\<close> and \<open>t\<close> is the transmission estimate of the pixel. Nothing bounds the
  result to the range of a byte.
\<close>

theorem recovered_values:
  assumes "0 < width img" "0 < height img" "nChannels img = 3" "L \<noteq> 0"
  shows "\<exists>m out. defog_loops img L = Inr (m, out) \<and>
           (\<forall>gray. find_light_intensity img gray 0 0 (width img) (height img) = Inr L \<longrightarrow>
              defog_main img gray = Inr (L, m, out)) \<and>
           (\<forall>x y. in_region 0 0 (width img) (height img) y x \<longrightarrow>
              (\<exists>dc sc. find_dark_channel img (x_low x) (y_low y)
                      (x_high (width img) x) (y_high (height img) y) = Inr dc \<and>
                 cells out (y, x) = Some sc \<and>
                 (\<forall>c. 0 \<le> c \<and> c < 3 \<longrightarrow>
                    val sc c = (val (pixel img y x) c - L) /
                                 max (1 - val (pixel img y x) dc / L) 0.54 + L)))"
proof -
  from defog_loops_spec [of img L] assms obtain st where
    run: "defog_loops img L = Inr st" and
    cell: "\<And>x y. in_region 0 0 (width img) (height img) y x \<Longrightarrow> pixel_done img L st y x"
    by auto
  have main: "defog_main img gray = Inr (L, fst st, snd st)"
    if "find_light_intensity img gray 0 0 (width img) (height img) = Inr L" for gray
    using that by (simp add: defog_main_def run)
  have "\<exists>dc sc. find_dark_channel img (x_low x) (y_low y)
               (x_high (width img) x) (y_high (height img) y) = Inr dc \<and>
          cells (snd st) (y, x) = Some sc \<and>
          (\<forall>c. 0 \<le> c \<and> c < 3 \<longrightarrow>
             val sc c = (val (pixel img y x) c - L) / max (1 - val (pixel img y x) dc / L) 0.54 + L)"
    if "in_region 0 0 (width img) (height img) y x" for x y
  proof -
    from cell [OF that] obtain dc where
      dc: "find_dark_channel img (x_low x) (y_low y)
             (x_high (width img) x) (y_high (height img) y) = Inr dc" and
      out: "cells (snd st) (y, x) =
          Some (CvScalar
            ((val (pixel img y x) 0 - L) / max (1 - val (pixel img y x) dc / L) 0.54 + L)
            ((val (pixel img y x) 1 - L) / max (1 - val (pixel img y x) dc / L) 0.54 + L)
            ((val (pixel img y x) 2 - L) / max (1 - val (pixel img y x) dc / L) 0.54 + L)
            0)"
      by (auto simp: pixel_done_def)
    have "c = 0 \<or> c = 1 \<or> c = 2" if "0 \<le> c" "c < 3" for c :: int
      using that by (rule channel_cases)
    then show ?thesis using dc out by fastforce
  qed
  with run main show ?thesis by (cases st) auto
qed

text \<open>
  In the same run, channel 1 of the output scalar of the bright pixel is
  \<open>(250 - 235) / 0.54 + 235 = 2365/9\<close>, above 255, and is handed to \<^verbatim>\<open>cvSet2D\<close> as it is.
\<close>

theorem recovered_values_witness:
  "(0::int) < width img_big \<and> (0::int) < height img_big \<and> nChannels img_big = 3 \<and>
   (235::real) \<noteq> 0 \<and>
   find_light_intensity img_big gray_big 0 0 (width img_big) (height img_big) = Inr 235 \<and>
   in_region 0 0 (width img_big) (height img_big) 7 31 \<and> (0::int) \<le> 1 \<and> (1::int) < 3 \<and>
   (\<exists>m out sc. defog_main img_big gray_big = Inr (235, m, out) \<and>
      cells out (7, 31) = Some sc \<and> val sc 1 = 2365 / 9 \<and> 255 < val sc 1)"
proof -
  have L: "(235::real) \<noteq> 0" by simp
  have c: "(0::int) \<le> 1" "(1::int) < 3" by simp_all
  from recovered_values [OF img_big_dims(1,2,3) L] light_intensity_big_whole img_big_dims(4) c
  obtain m out dc sc where
    run: "defog_main img_big gray_big = Inr (235, m, out)" and
    dc: "find_dark_channel img_big (x_low 31) (y_low 7)
           (x_high (width img_big) 31) (y_high (height img_big) 7) = Inr dc" and
    cell: "cells out (7, 31) = Some sc" and
    v: "val sc 1 = (val (pixel img_big 7 31) 1 - 235) /
                     max (1 - val (pixel img_big 7 31) dc / 235) 0.54 + 235"
    by blast
  from dc have "dc = 2" by (simp add: window_big_bright)
  with v have "val sc 1 = 2365 / 9"
    by (simp add: pixel_def img_big_def)
  with run cell img_big_dims L c light_intensity_big_whole show ?thesis by force
qed

text \<open>
  Claim C3. For every non-empty region inside the image, \<^const>\<open>find_dark_channel\<close>
  returns a channel index \<open>c\<close> among 0, 1, 2, and the pixel the scan ends with (the
  winning pixel) lies in the region and has on channel \<open>c\<close> a value that is at most every
  colour value of every pixel of the region, hence at most the minimum over channels of
  each of them.
\<close>

theorem find_dark_channel_minimal:
  assumes "0 \<le> x1" "x1 < x2" "x2 \<le> width img" "0 \<le> y1" "y1 < y2" "y2 \<le> height img"
  shows "\<exists>c px py. find_dark_channel img x1 y1 x2 y2 = Inr c \<and> 0 \<le> c \<and> c < 3 \<and>
           in_region x1 y1 x2 y2 py px \<and>
           dark_scan img x1 y1 x2 y2 = Inr (pixel img py px, c) \<and>
           (\<forall>x y k. in_region x1 y1 x2 y2 y x \<and> 0 \<le> k \<and> k < 3 \<longrightarrow>
              val (pixel img py px) c \<le> val (pixel img y x) k)"
proof -
  from dark_scan_spec [OF assms] obtain px py where
    reg: "in_region x1 y1 x2 y2 py px" and
    scan: "dark_scan img x1 y1 x2 y2 = Inr (pixel img py px, scalar_min (pixel img py px) 3)" and
    le: "\<And>x y. in_region x1 y1 x2 y2 y x \<Longrightarrow>
           min_value (pixel img py px) \<le> min_value (pixel img y x)"
    by blast
  let ?c = "scalar_min (pixel img py px) 3"
  have "find_dark_channel img x1 y1 x2 y2 = Inr ?c"
    by (simp add: find_dark_channel_def scan)
  moreover have "val (pixel img py px) ?c \<le> val (pixel img y x) k"
    if "in_region x1 y1 x2 y2 y x" "0 \<le> k" "k < 3" for x y k
    using le [OF that(1)] min_value_le [OF that(2,3), of "pixel img y x"]
    by (simp add: val_scalar_min)
  ultimately show ?thesis
    using reg scan scalar_min_range [of "pixel img py px"] by blast
qed

theorem find_dark_channel_minimal_witness:
  "(0::int) \<le> 0 \<and> (0::int) < 3 \<and> 3 \<le> width img_small \<and> (0::int) < 2 \<and> 2 \<le> height img_small \<and>
   find_dark_channel img_small 0 0 3 2 = Inr 1 \<and>
   (\<exists>c px py. find_dark_channel img_small 0 0 3 2 = Inr c \<and> 0 \<le> c \<and> c < 3 \<and>
      in_region 0 0 3 2 py px \<and>
      dark_scan img_small 0 0 3 2 = Inr (pixel img_small py px, c) \<and>
      (\<forall>x y k. in_region 0 0 3 2 y x \<and> 0 \<le> k \<and> k < 3 \<longrightarrow>
         val (pixel img_small py px) c \<le> val (pixel img_small y x) k))"
proof -
  have b: "(0::int) \<le> 0" "(0::int) < 3" "3 \<le> width img_small" "(0::int) < 2" "2 \<le> height img_small"
    by (simp_all add: img_small_def)
  have "find_dark_channel img_small 0 0 3 2 = Inr 1"
    by (simp add: eval_simps img_small_def)
  with b find_dark_channel_minimal [OF b(1,2,3,1,4,5)] show ?thesis by blast
qed

text \<open>
  Claim C4. In \<^const>\<open>find_light_intensity\<close>, for a non-empty region inside both
  images: placing a pixel in the array leaves the array as it is when no slot has a
  (value, intensity) pair lexicographically below the pair of the pixel, and otherwise
  overwrites the first such slot and no other. The array after the scan is the result of
  placing the pixels of the region one by one, in row-major order, into the initialised
  array. The function returns the result of the last loop on that array, and when the
  array has a slot, that is the intensity of a slot with the greatest intensity.
\<close>

theorem find_light_intensity_first_fit:
  assumes "0 \<le> x1" "x1 < x2" "x2 \<le> width img" "x2 \<le> width gray"
    and "0 \<le> y1" "y1 < y2" "y2 \<le> height img" "y2 \<le> height gray"
  shows "(\<forall>ts p. (\<forall>i<length ts. \<not> (cv_val (ts ! i), cv_intensity (ts ! i)) < (cv_val p, cv_intensity p)) \<longrightarrow>
            place ts p = ts) \<and>
         (\<forall>ts p i. i < length ts \<and>
            (cv_val (ts ! i), cv_intensity (ts ! i)) < (cv_val p, cv_intensity p) \<and>
            (\<forall>j<i. \<not> (cv_val (ts ! j), cv_intensity (ts ! j)) < (cv_val p, cv_intensity p)) \<longrightarrow>
            place ts p = ts[i := p]) \<and>
         (\<exists>dc tops. find_dark_channel img x1 y1 x2 y2 = Inr dc \<and>
            light_scan img gray x1 y1 x2 y2 = Inr tops \<and>
            tops = foldl place (init_top 0 (top_num x1 y1 x2 y2) [])
                     (map (\<lambda>(y, x). candidate img gray dc y x) (row_major x1 y1 x2 y2)) \<and>
            length tops = nat (top_num x1 y1 x2 y2) \<and>
            find_light_intensity img gray x1 y1 x2 y2 = Inr (max_loop tops (- 1)) \<and>
            (tops \<noteq> [] \<longrightarrow>
               (\<exists>t\<in>set tops. find_light_intensity img gray x1 y1 x2 y2 = Inr (cv_intensity t) \<and>
                  (\<forall>u\<in>set tops. cv_intensity u \<le> cv_intensity t))))"
proof -
  have rule1: "\<forall>ts p. (\<forall>i<length ts. \<not> (cv_val (ts ! i), cv_intensity (ts ! i)) < (cv_val p, cv_intensity p)) \<longrightarrow>
            place ts p = ts"
    using place_unchanged by (simp add: slot_below_lex)
  have rule2: "\<forall>ts p i. i < length ts \<and>
            (cv_val (ts ! i), cv_intensity (ts ! i)) < (cv_val p, cv_intensity p) \<and>
            (\<forall>j<i. \<not> (cv_val (ts ! j), cv_intensity (ts ! j)) < (cv_val p, cv_intensity p)) \<longrightarrow>
            place ts p = ts[i := p]"
    using place_first by (simp add: slot_below_lex)
  from light_scan_foldl [OF assms] obtain dc where
    dc: "find_dark_channel img x1 y1 x2 y2 = Inr dc" and
    scan: "light_scan img gray x1 y1 x2 y2 =
             Inr (foldl place (replicate (nat (top_num x1 y1 x2 y2)) unset_slot)
                    (map (\<lambda>(y, x). candidate img gray dc y x) (row_major x1 y1 x2 y2)))"
    by blast
  define tops where "tops = foldl place (replicate (nat (top_num x1 y1 x2 y2)) unset_slot)
                    (map (\<lambda>(y, x). candidate img gray dc y x) (row_major x1 y1 x2 y2))"
  have scan': "light_scan img gray x1 y1 x2 y2 = Inr tops" by (simp add: scan tops_def)
  have eq: "tops = foldl place (init_top 0 (top_num x1 y1 x2 y2) [])
                     (map (\<lambda>(y, x). candidate img gray dc y x) (row_major x1 y1 x2 y2))"
    by (simp add: tops_def init_top_eq)
  have len: "length tops = nat (top_num x1 y1 x2 y2)" by (simp add: tops_def)
  have res: "find_light_intensity img gray x1 y1 x2 y2 = Inr (max_loop tops (- 1))"
    by (simp add: find_light_intensity_def scan')
  have "list_all (\<lambda>t. - 1 \<le> cv_intensity t) tops"
    unfolding tops_def
  proof (rule foldl_place_pred)
    show "list_all (\<lambda>t. - 1 \<le> cv_intensity t) (replicate (nat (top_num x1 y1 x2 y2)) unset_slot)"
      by (simp add: list_all_iff unset_slot_def)
    have "- 1 \<le> cv_intensity (candidate img gray dc y x)" for y x
      using candidate_intensity_nonneg [of img gray dc y x] by linarith
    then show "list_all (\<lambda>t. - 1 \<le> cv_intensity t)
                 (map (\<lambda>(y, x). candidate img gray dc y x) (row_major x1 y1 x2 y2))"
      by (auto simp: list_all_iff)
  qed
  then have "tops \<noteq> [] \<longrightarrow>
               (\<exists>t\<in>set tops. find_light_intensity img gray x1 y1 x2 y2 = Inr (cv_intensity t) \<and>
                  (\<forall>u\<in>set tops. cv_intensity u \<le> cv_intensity t))"
    using max_loop_slots [of tops] by (simp add: res)
  with dc scan' eq len res have "\<exists>dc tops. find_dark_channel img x1 y1 x2 y2 = Inr dc \<and>
            light_scan img gray x1 y1 x2 y2 = Inr tops \<and>
            tops = foldl place (init_top 0 (top_num x1 y1 x2 y2) [])
                     (map (\<lambda>(y, x). candidate img gray dc y x) (row_major x1 y1 x2 y2)) \<and>
            length tops = nat (top_num x1 y1 x2 y2) \<and>
            find_light_intensity img gray x1 y1 x2 y2 = Inr (max_loop tops (- 1)) \<and>
            (tops \<noteq> [] \<longrightarrow>
               (\<exists>t\<in>set tops. find_light_intensity img gray x1 y1 x2 y2 = Inr (cv_intensity t) \<and>
                  (\<forall>u\<in>set tops. cv_intensity u \<le> cv_intensity t)))"
    by blast
  with rule1 rule2 show ?thesis by (intro conjI)
qed

theorem find_light_intensity_first_fit_witness:
  "(0::int) \<le> 0 \<and> (0::int) < 50 \<and> 50 \<le> width img_big \<and> 50 \<le> width gray_big \<and>
   (0::int) < 20 \<and> 20 \<le> height img_big \<and> 20 \<le> height gray_big \<and>
   place [slot 5 5, slot 3 9, slot 3 2, slot 1 1] (slot 3 4) =
     [slot 5 5, slot 3 9, slot 3 4, slot 1 1] \<and>
   place [slot 5 5, slot 3 9] (slot 3 4) = [slot 5 5, slot 3 9] \<and>
   (\<exists>tops. light_scan img_big gray_big 0 0 50 20 = Inr tops \<and> tops \<noteq> [] \<and>
      (\<exists>t\<in>set tops. find_light_intensity img_big gray_big 0 0 50 20 = Inr (cv_intensity t) \<and>
         (\<forall>u\<in>set tops. cv_intensity u \<le> cv_intensity t)))"
proof -
  note inst = find_light_intensity_first_fit [OF img_big_bounds(1,2,3,4,1,5,6,7)]
  let ?ts = "[slot 5 5, slot 3 9, slot 3 2, slot 1 1]"
  have "(2::nat) < length ?ts \<and>
        (cv_val (?ts ! 2), cv_intensity (?ts ! 2)) < (cv_val (slot 3 4), cv_intensity (slot 3 4)) \<and>
        (\<forall>j<2. \<not> (cv_val (?ts ! j), cv_intensity (?ts ! j)) < (cv_val (slot 3 4), cv_intensity (slot 3 4)))"
    by (simp add: slot_def less_prod_def less_Suc_eq numeral_2_eq_2)
  with inst have "place ?ts (slot 3 4) = ?ts[2 := slot 3 4]" by blast
  then have a: "place ?ts (slot 3 4) = [slot 5 5, slot 3 9, slot 3 4, slot 1 1]" by simp
  let ?us = "[slot 5 5, slot 3 9]"
  have "\<forall>i<length ?us. \<not> (cv_val (?us ! i), cv_intensity (?us ! i)) < (cv_val (slot 3 4), cv_intensity (slot 3 4))"
    by (simp add: slot_def less_prod_def less_Suc_eq numeral_2_eq_2)
  with inst have b: "place ?us (slot 3 4) = ?us" by blast
  from inst obtain tops where
    t: "light_scan img_big gray_big 0 0 50 20 = Inr tops"
       "length tops = nat (top_num 0 0 50 20)"
       "tops \<noteq> [] \<longrightarrow>
          (\<exists>t\<in>set tops. find_light_intensity img_big gray_big 0 0 50 20 = Inr (cv_intensity t) \<and>
             (\<forall>u\<in>set tops. cv_intensity u \<le> cv_intensity t))"
    by blast
  from t(2) have "tops \<noteq> []" by (auto simp: top_num_big)
  with t a b img_big_bounds show ?thesis by blast
qed

text \<open>
  Claim C5, amended. The program checks neither the size of the candidate array nor the
  light intensity. For a colour image with at least one pixel and a grayscale image of
  the same size, the loops of \<^verbatim>\<open>main\<close> complete for every value of the light intensity,
  zero and negative values included, and the run as a whole completes. When the image has
  fewer than 1000 pixels the size of the candidate array is 0, the light intensity is
  \<open>-1\<close>, and the run completes with the results of the loops for the divisor \<open>-1\<close>.
  (At light intensity 0 the statement is about completion only: the values C computes
  there are not finite.)
\<close>

theorem defog_main_has_no_guard:
  assumes "0 < width img" "0 < height img" "nChannels img = 3"
    "width gray = width img" "height gray = height img"
  shows "(\<forall>L. \<exists>m out. defog_loops img L = Inr (m, out)) \<and>
         (\<exists>L m out. find_light_intensity img gray 0 0 (width img) (height img) = Inr L \<and>
            defog_loops img L = Inr (m, out) \<and> defog_main img gray = Inr (L, m, out)) \<and>
         (width img * height img < 1000 \<longrightarrow>
            top_num 0 0 (width img) (height img) = 0 \<and>
            (\<exists>m out. defog_loops img (- 1) = Inr (m, out) \<and>
               defog_main img gray = Inr (- 1, m, out)))"
proof -
  have loops: "\<exists>m out. defog_loops img L = Inr (m, out)" for L
    using defog_loops_spec [of img L] assms by auto
  from defog_main_runs [OF assms] obtain L st where
    run: "find_light_intensity img gray 0 0 (width img) (height img) = Inr L"
      "defog_loops img L = Inr st" "defog_main img gray = Inr (L, fst st, snd st)"
    by blast
  then have main: "\<exists>L m out. find_light_intensity img gray 0 0 (width img) (height img) = Inr L \<and>
            defog_loops img L = Inr (m, out) \<and> defog_main img gray = Inr (L, m, out)"
    by (cases st) auto
  have "top_num 0 0 (width img) (height img) = 0 \<and>
        (\<exists>m out. defog_loops img (- 1) = Inr (m, out) \<and> defog_main img gray = Inr (- 1, m, out))"
    if "width img * height img < 1000"
  proof -
    have "top_num 0 0 (width img) (height img) = 0 \<and>
          light_scan img gray 0 0 (width img) (height img) = Inr [] \<and>
          find_light_intensity img gray 0 0 (width img) (height img) = Inr (- 1)"
      by (rule find_light_intensity_small_region) (use assms that in auto)
    with run show ?thesis by (cases st) auto
  qed
  with loops main show ?thesis by blast
qed

theorem defog_main_has_no_guard_witness:
  "(0::int) < width img_small \<and> (0::int) < height img_small \<and> nChannels img_small = 3 \<and>
   width gray_small = width img_small \<and> height gray_small = height img_small \<and>
   width img_small * height img_small < 1000 \<and>
   (\<exists>m out. defog_loops img_small 0 = Inr (m, out)) \<and>
   (\<exists>m out. defog_main img_small gray_small = Inr (- 1, m, out))"
  using defog_main_has_no_guard [OF img_small_dims(1-5)] img_small_dims by blast

text \<open>
  Claim C5 as stated fails on the 3 by 2 example: the size of the candidate array is 0,
  and the run returns a result, with light intensity \<open>-1\<close>, instead of failing.
\<close>

theorem empty_candidate_set_run_completes:
  "top_num 0 0 (width img_small) (height img_small) = 0 \<and>
   \<not> isl (defog_main img_small gray_small) \<and>
   fst (projr (defog_main img_small gray_small)) = - 1"
proof -
  have b: "(0::int) \<le> 0" "width img_small \<le> width img_small" "width img_small \<le> width gray_small"
    "height img_small \<le> height img_small" "height img_small \<le> height gray_small"
    "(width img_small - 0) * (height img_small - 0) < 1000"
    by (simp_all add: img_small_def gray_small_def)
  from find_light_intensity_small_region [OF b(1) img_small_dims(1) b(2,3,1) img_small_dims(2) b(4,5,6)]
  have tn: "top_num 0 0 (width img_small) (height img_small) = 0"
    and li: "find_light_intensity img_small gray_small 0 0 (width img_small) (height img_small) = Inr (- 1)"
    by simp_all
  from defog_main_runs [OF img_small_dims(1-5)] li obtain st where
    "defog_main img_small gray_small = Inr (- 1, fst st, snd st)" by auto
  with tn show ?thesis by simp
qed

text \<open>
  Claim C6. For every pixel \<open>(x, y)\<close> of the image the window passed to
  \<^const>\<open>find_dark_channel\<close> is \<open>[x - 10, x + 10) \<times> [y - 10, y + 10)\<close> cut to
  \<open>[0, width) \<times> [0, height)\<close>: its lower bounds are \<open>max 0 (x - 10)\<close> and
  \<open>max 0 (y - 10)\<close>, its upper bounds \<open>min width (x + 10)\<close> and \<open>min height (y + 10)\<close>.
  It lies inside the image, contains the pixel, so it is not empty, and the call of
  \<^const>\<open>find_dark_channel\<close> on it returns a channel. For the pixel at the origin of an
  image of width and height at least 10 the window is \<open>[0, 10) \<times> [0, 10)\<close>.
\<close>

theorem window_clamped:
  assumes "in_region 0 0 (width img) (height img) y x"
  shows "x_low x = max 0 (x - 10) \<and> x_high (width img) x = min (width img) (x + 10) \<and>
         y_low y = max 0 (y - 10) \<and> y_high (height img) y = min (height img) (y + 10) \<and>
         {x_low x ..< x_high (width img) x} = {x - 10 ..< x + 10} \<inter> {0 ..< width img} \<and>
         {y_low y ..< y_high (height img) y} = {y - 10 ..< y + 10} \<inter> {0 ..< height img} \<and>
         0 \<le> x_low x \<and> x_low x < x_high (width img) x \<and> x_high (width img) x \<le> width img \<and>
         0 \<le> y_low y \<and> y_low y < y_high (height img) y \<and> y_high (height img) y \<le> height img \<and>
         in_region (x_low x) (y_low y) (x_high (width img) x) (y_high (height img) y) y x \<and>
         (\<exists>dc. find_dark_channel img (x_low x) (y_low y)
                 (x_high (width img) x) (y_high (height img) y) = Inr dc) \<and>
         (10 \<le> width img \<and> 10 \<le> height img \<longrightarrow>
            x_low 0 = 0 \<and> y_low 0 = 0 \<and> x_high (width img) 0 = 10 \<and> y_high (height img) 0 = 10)"
proof -
  from assms have pos: "0 \<le> x" "x < width img" "0 \<le> y" "y < height img"
    by (simp_all add: in_region_def)
  have lows: "x_low x = max 0 (x - 10)" "y_low y = max 0 (y - 10)"
    by (simp_all add: x_low_def y_low_def MAP_WIDTH_def)
  have highs: "x_high (width img) x = min (width img) (x + 10)"
    "y_high (height img) y = min (height img) (y + 10)"
    by (simp_all add: x_high_def y_high_def MAP_WIDTH_def)
  have sets: "{x_low x ..< x_high (width img) x} = {x - 10 ..< x + 10} \<inter> {0 ..< width img}"
    "{y_low y ..< y_high (height img) y} = {y - 10 ..< y + 10} \<inter> {0 ..< height img}"
    unfolding lows highs by auto
  have corner: "10 \<le> width img \<and> 10 \<le> height img \<longrightarrow>
      x_low 0 = 0 \<and> y_low 0 = 0 \<and> x_high (width img) 0 = 10 \<and> y_high (height img) 0 = 10"
    by (simp add: x_low_def y_low_def x_high_def y_high_def MAP_WIDTH_def)
  from window_channel [OF pos] have run: "\<exists>dc. find_dark_channel img (x_low x) (y_low y)
      (x_high (width img) x) (y_high (height img) y) = Inr dc"
    by blast
  from window_bounds [OF pos(1,2)] window_bounds_y [OF pos(3,4)] lows highs sets corner run
  show ?thesis by (simp add: in_region_def)
qed

theorem window_clamped_witness:
  "in_region 0 0 (width img_big) (height img_big) 0 0 \<and>
   10 \<le> width img_big \<and> 10 \<le> height img_big \<and>
   x_low 0 = 0 \<and> y_low 0 = 0 \<and> x_high (width img_big) 0 = 10 \<and> y_high (height img_big) 0 = 10 \<and>
   {x_low 0 ..< x_high (width img_big) 0} = {0 - 10 ..< 0 + 10} \<inter> {0 ..< width img_big} \<and>
   (\<exists>dc. find_dark_channel img_big 0 0 10 10 = Inr dc) \<and>
   in_region 0 0 (width img_big) (height img_big) 19 45 \<and>
   x_low 45 = 35 \<and> x_high (width img_big) 45 = 50 \<and> y_low 19 = 9 \<and> y_high (height img_big) 19 = 20"
proof -
  have reg: "in_region 0 0 (width img_big) (height img_big) 0 0"
    "in_region 0 0 (width img_big) (height img_big) 19 45"
    and dims: "10 \<le> width img_big" "10 \<le> height img_big"
    by (simp_all add: in_region_def img_big_def)
  from window_clamped [OF reg(1)] dims have corner:
    "x_low 0 = 0" "y_low 0 = 0" "x_high (width img_big) 0 = 10" "y_high (height img_big) 0 = 10"
    "{x_low 0 ..< x_high (width img_big) 0} = {0 - 10 ..< 0 + 10} \<inter> {0 ..< width img_big}"
    "\<exists>dc. find_dark_channel img_big (x_low 0) (y_low 0)
       (x_high (width img_big) 0) (y_high (height img_big) 0) = Inr dc"
    by blast+
  from window_clamped [OF reg(2)] have edge:
    "x_low 45 = 35" "x_high (width img_big) 45 = 50" "y_low 19 = 9" "y_high (height img_big) 19 = 20"
    by (simp_all add: img_big_def)
  from corner(6) have "\<exists>dc. find_dark_channel img_big 0 0 10 10 = Inr dc"
    by (simp only: corner(1-4))
  with reg dims corner(1-5) edge show ?thesis by blast
qed

text \<open>
  Claim C7, amended. For a non-empty region inside both images the size of the candidate
  array is \<open>\<lfloor>area * 0.001\<rfloor>\<close>, that is \<open>area div 1000\<close>, with no minimum: the array is
  empty when the area is below 1000. Every slot of the initialised array has \<open>-1\<close> in its
  four fields, and the array keeps its size during the scan.
\<close>

theorem candidate_set_size:
  assumes "0 \<le> x1" "x1 < x2" "x2 \<le> width img" "x2 \<le> width gray"
    and "0 \<le> y1" "y1 < y2" "y2 \<le> height img" "y2 \<le> height gray"
  shows "top_num x1 y1 x2 y2 = \<lfloor>real_of_int ((x2 - x1) * (y2 - y1)) * 0.001\<rfloor> \<and>
         top_num x1 y1 x2 y2 = (x2 - x1) * (y2 - y1) div 1000 \<and>
         length (init_top 0 (top_num x1 y1 x2 y2) []) = nat (top_num x1 y1 x2 y2) \<and>
         (\<forall>t\<in>set (init_top 0 (top_num x1 y1 x2 y2) []).
            cv_x t = - 1 \<and> cv_y t = - 1 \<and> cv_val t = - 1 \<and> cv_intensity t = - 1) \<and>
         ((x2 - x1) * (y2 - y1) < 1000 \<longrightarrow> init_top 0 (top_num x1 y1 x2 y2) [] = []) \<and>
         (\<exists>tops. light_scan img gray x1 y1 x2 y2 = Inr tops \<and>
            length tops = nat (top_num x1 y1 x2 y2))"
proof -
  have area: "0 \<le> (x2 - x1) * (y2 - y1)" using assms by simp
  then have "0 \<le> real_of_int ((x2 - x1) * (y2 - y1))"
    by (simp only: of_int_0_le_iff)
  then have "0 \<le> real_of_int ((x2 - x1) * (y2 - y1)) * 0.001"
    by (rule mult_nonneg_nonneg) simp
  then have fl: "top_num x1 y1 x2 y2 = \<lfloor>real_of_int ((x2 - x1) * (y2 - y1)) * 0.001\<rfloor>"
    unfolding top_num_def trunc_def by (simp only: if_True)
  have dv: "top_num x1 y1 x2 y2 = (x2 - x1) * (y2 - y1) div 1000"
    unfolding top_num_def by (rule top_num_div [OF area])
  have small: "(x2 - x1) * (y2 - y1) < 1000 \<longrightarrow> init_top 0 (top_num x1 y1 x2 y2) [] = []"
    using area by (simp add: dv init_top_eq)
  from light_scan_foldl [OF assms] have
    "\<exists>tops. light_scan img gray x1 y1 x2 y2 = Inr tops \<and> length tops = nat (top_num x1 y1 x2 y2)"
    by auto
  with fl dv small show ?thesis
    by (simp add: init_top_eq unset_slot_def)
qed

theorem candidate_set_size_witness:
  "(0::int) \<le> 0 \<and> (0::int) < 50 \<and> 50 \<le> width img_big \<and> 50 \<le> width gray_big \<and>
   (0::int) < 20 \<and> 20 \<le> height img_big \<and> 20 \<le> height gray_big \<and>
   (0::int) < 3 \<and> 3 \<le> width img_small \<and> 3 \<le> width gray_small \<and>
   (0::int) < 2 \<and> 2 \<le> height img_small \<and> 2 \<le> height gray_small \<and>
   ((3::int) - 0) * (2 - 0) < 1000 \<and>
   init_top 0 (top_num 0 0 3 2) [] = [] \<and>
   top_num 0 0 50 20 = 1 \<and>
   init_top 0 (top_num 0 0 50 20) [] = [unset_slot] \<and>
   cv_x unset_slot = - 1 \<and> cv_y unset_slot = - 1 \<and>
   cv_val unset_slot = - 1 \<and> cv_intensity unset_slot = - 1 \<and>
   (\<exists>tops. light_scan img_big gray_big 0 0 50 20 = Inr tops \<and> length tops = 1)"
proof -
  have s: "(0::int) < 3" "3 \<le> width img_small" "3 \<le> width gray_small"
    "(0::int) < 2" "2 \<le> height img_small" "2 \<le> height gray_small"
    "((3::int) - 0) * (2 - 0) < 1000"
    by (simp_all add: img_small_def gray_small_def)
  have i: "init_top 0 (top_num 0 0 50 20) [] = [unset_slot]"
    by (simp add: top_num_big init_top.simps)
  from candidate_set_size [OF img_big_bounds(1,2,3,4,1,5,6,7)]
    candidate_set_size [OF img_big_bounds(1) s(1,2,3) img_big_bounds(1) s(4,5,6)]
    img_big_bounds s i top_num_big
  show ?thesis by auto
qed

text \<open>
  Claim C7 as stated fails on the 3 by 2 example: the size computed is 0, not 1, the
  initialised array has no slot, and the array after the scan is empty.
\<close>

theorem candidate_set_not_at_least_one:
  "top_num 0 0 3 2 = 0 \<and> length (init_top 0 (top_num 0 0 3 2) []) = 0 \<and>
   light_scan img_small gray_small 0 0 3 2 = Inr []"
  by (simp add: top_num_def trunc_def init_top.simps light_scan_def eval_simps light_step_def
      img_small_def gray_small_def)

text \<open>
  Claim C8. The result of \<^const>\<open>find_dark_channel\<close> is a function of the image and
  the region, with these ties. The winning pixel attains the smallest minimum over
  channels in the region, and every pixel visited before it in row-major order has a
  strictly greater minimum: among the pixels that tie for the smallest minimum the first
  one visited wins. The index returned is \<^const>\<open>scalar_min\<close> of the winning pixel,
  which holds its minimum, and every channel before that index holds a strictly greater
  value: within the pixel the first channel in the order of the image (blue, green, red)
  wins. So on a region whose pixels are all equal the index is the one of the top left
  pixel, and it is 0 when the three channels of that value are equal too.
\<close>

theorem find_dark_channel_tie_break:
  assumes "0 \<le> x1" "x1 < x2" "x2 \<le> width img" "0 \<le> y1" "y1 < y2" "y2 \<le> height img"
  shows "(\<exists>px py. in_region x1 y1 x2 y2 py px \<and>
            dark_scan img x1 y1 x2 y2 = Inr (pixel img py px, scalar_min (pixel img py px) 3) \<and>
            find_dark_channel img x1 y1 x2 y2 = Inr (scalar_min (pixel img py px) 3) \<and>
            (\<forall>x y. in_region x1 y1 x2 y2 y x \<longrightarrow>
               min_value (pixel img py px) \<le> min_value (pixel img y x)) \<and>
            (\<forall>x y. in_region x1 y1 x2 y2 y x \<and> scanned_before y x py px \<longrightarrow>
               min_value (pixel img py px) < min_value (pixel img y x)) \<and>
            val (pixel img py px) (scalar_min (pixel img py px) 3) = min_value (pixel img py px) \<and>
            (\<forall>k. 0 \<le> k \<and> k < scalar_min (pixel img py px) 3 \<longrightarrow>
               min_value (pixel img py px) < val (pixel img py px) k)) \<and>
         ((\<forall>x y. in_region x1 y1 x2 y2 y x \<longrightarrow> pixel img y x = pixel img y1 x1) \<longrightarrow>
            find_dark_channel img x1 y1 x2 y2 = Inr (scalar_min (pixel img y1 x1) 3) \<and>
            (val (pixel img y1 x1) 0 = val (pixel img y1 x1) 1 \<and>
             val (pixel img y1 x1) 1 = val (pixel img y1 x1) 2 \<longrightarrow>
               find_dark_channel img x1 y1 x2 y2 = Inr 0))"
proof -
  from dark_scan_spec [OF assms] obtain px py where
    reg: "in_region x1 y1 x2 y2 py px" and
    scan: "dark_scan img x1 y1 x2 y2 = Inr (pixel img py px, scalar_min (pixel img py px) 3)" and
    le: "\<forall>x y. in_region x1 y1 x2 y2 y x \<longrightarrow>
           min_value (pixel img py px) \<le> min_value (pixel img y x)" and
    lt: "\<forall>x y. in_region x1 y1 x2 y2 y x \<and> scanned_before y x py px \<longrightarrow>
           min_value (pixel img py px) < min_value (pixel img y x)"
    by blast
  let ?P = "pixel img py px"
  have res: "find_dark_channel img x1 y1 x2 y2 = Inr (scalar_min ?P 3)"
    by (simp add: find_dark_channel_def scan)
  have first: "\<forall>k. 0 \<le> k \<and> k < scalar_min ?P 3 \<longrightarrow> min_value ?P < val ?P k"
    using scalar_min_first [of _ ?P] by blast
  have general: "\<exists>px py. in_region x1 y1 x2 y2 py px \<and>
            dark_scan img x1 y1 x2 y2 = Inr (pixel img py px, scalar_min (pixel img py px) 3) \<and>
            find_dark_channel img x1 y1 x2 y2 = Inr (scalar_min (pixel img py px) 3) \<and>
            (\<forall>x y. in_region x1 y1 x2 y2 y x \<longrightarrow>
               min_value (pixel img py px) \<le> min_value (pixel img y x)) \<and>
            (\<forall>x y. in_region x1 y1 x2 y2 y x \<and> scanned_before y x py px \<longrightarrow>
               min_value (pixel img py px) < min_value (pixel img y x)) \<and>
            val (pixel img py px) (scalar_min (pixel img py px) 3) = min_value (pixel img py px) \<and>
            (\<forall>k. 0 \<le> k \<and> k < scalar_min (pixel img py px) 3 \<longrightarrow>
               min_value (pixel img py px) < val (pixel img py px) k)"
    using reg scan res le lt first val_scalar_min [of ?P] by blast
  have uniform: "find_dark_channel img x1 y1 x2 y2 = Inr (scalar_min (pixel img y1 x1) 3)"
    if "\<forall>x y. in_region x1 y1 x2 y2 y x \<longrightarrow> pixel img y x = pixel img y1 x1"
    using that reg res by simp
  have grey: "scalar_min sc 3 = 0" if "val sc 0 = val sc 1" "val sc 1 = val sc 2" for sc
    using that by (simp add: scalar_min_3)
  from general uniform grey show ?thesis by presburger
qed

text \<open>
  In the example with two pixels that share the smallest value 5, the scan ends with
  the pixel at row 0, column 1, which is visited first, and with channel 0, the first of
  its two channels that hold 5.
\<close>

theorem find_dark_channel_tie_break_witness:
  "(0::int) \<le> 0 \<and> (0::int) < 3 \<and> 3 \<le> width img_tie \<and> (0::int) < 2 \<and> 2 \<le> height img_tie \<and>
   3 \<le> width img_flat \<and> 2 \<le> height img_flat \<and>
   dark_scan img_tie 0 0 3 2 = Inr (CvScalar 5 9 5 0, 0) \<and>
   val (pixel img_flat 0 0) 0 = val (pixel img_flat 0 0) 1 \<and>
   val (pixel img_flat 0 0) 1 = val (pixel img_flat 0 0) 2 \<and>
   find_dark_channel img_flat 0 0 3 2 = Inr 0 \<and>
   (\<exists>px py. in_region 0 0 3 2 py px \<and>
      find_dark_channel img_tie 0 0 3 2 = Inr (scalar_min (pixel img_tie py px) 3) \<and>
      (\<forall>x y. in_region 0 0 3 2 y x \<and> scanned_before y x py px \<longrightarrow>
         min_value (pixel img_tie py px) < min_value (pixel img_tie y x)))"
proof -
  have b: "(0::int) \<le> 0" "(0::int) < 3" "3 \<le> width img_tie" "(0::int) < 2" "2 \<le> height img_tie"
    "3 \<le> width img_flat" "2 \<le> height img_flat"
    by (simp_all add: img_tie_def img_flat_def)
  have u: "\<forall>x y. in_region 0 0 3 2 y x \<longrightarrow> pixel img_flat y x = pixel img_flat 0 0"
    "val (pixel img_flat 0 0) 0 = val (pixel img_flat 0 0) 1"
    "val (pixel img_flat 0 0) 1 = val (pixel img_flat 0 0) 2"
    by (simp_all add: pixel_def img_flat_def)
  have e: "dark_scan img_tie 0 0 3 2 = Inr (CvScalar 5 9 5 0, 0)"
    by (simp add: eval_simps img_tie_def)
  from find_dark_channel_tie_break [OF b(1,2,3,1,4,5)]
    find_dark_channel_tie_break [OF b(1,2,6,1,4,7)] b u e
  show ?thesis by blast
qed

text \<open>
  Claim C9. Take a non-empty region inside both images whose candidate array has at
  least one slot, and a pixel of the region such that every other pixel of the region
  has a strictly smaller value on the dark channel of the region and a strictly smaller
  grayscale intensity. Then \<^const>\<open>find_light_intensity\<close> returns the grayscale
  intensity of that pixel. The dark-channel value of a pixel is, as in line 92 of the
  source, its value on the channel \<^const>\<open>find_dark_channel\<close> returns for the region.
\<close>

theorem find_light_intensity_unique_brightest:
  assumes "0 \<le> x1" "x1 < x2" "x2 \<le> width img" "x2 \<le> width gray"
      "0 \<le> y1" "y1 < y2" "y2 \<le> height img" "y2 \<le> height gray"
    and "1 \<le> top_num x1 y1 x2 y2"
    and "in_region x1 y1 x2 y2 py px"
    and "find_dark_channel img x1 y1 x2 y2 = Inr dc"
    and "\<forall>x y. in_region x1 y1 x2 y2 y x \<and> (y, x) \<noteq> (py, px) \<longrightarrow>
        val (pixel img y x) dc < val (pixel img py px) dc \<and>
        val (pixel gray y x) 0 < val (pixel gray py px) 0"
  shows "find_light_intensity img gray x1 y1 x2 y2 = Inr (val (pixel gray py px) 0)"
  using assms by (rule find_light_intensity_unique)

text \<open>
  The 50 by 20 example: 1000 pixels, so one slot; the dark channel of the image is 2, and
  the pixel at row 7, column 31 is the brightest one on that channel and in the
  grayscale image, where it holds 235.
\<close>

theorem find_light_intensity_unique_brightest_witness:
  "(0::int) \<le> 0 \<and> (0::int) < 50 \<and> 50 \<le> width img_big \<and> 50 \<le> width gray_big \<and>
   (0::int) < 20 \<and> 20 \<le> height img_big \<and> 20 \<le> height gray_big \<and>
   1 \<le> top_num 0 0 50 20 \<and> in_region 0 0 50 20 7 31 \<and>
   find_dark_channel img_big 0 0 50 20 = Inr 2 \<and>
   val (pixel img_big 7 31) 2 = 240 \<and> val (pixel img_big 0 0) 2 = 10 \<and>
   val (pixel gray_big 7 31) 0 = 235 \<and> val (pixel gray_big 0 0) 0 = 18 \<and>
   find_light_intensity img_big gray_big 0 0 50 20 = Inr 235"
proof -
  have size: "1 \<le> top_num 0 0 50 20" by (simp add: top_num_big)
  have reg: "in_region 0 0 50 20 7 31" by (simp add: in_region_def)
  have "find_light_intensity img_big gray_big 0 0 50 20 = Inr (val (pixel gray_big 7 31) 0)"
    by (rule find_light_intensity_unique_brightest
          [OF img_big_bounds(1,2,3,4,1,5,6,7) size reg dark_channel_big big_brightest])
  then have "find_light_intensity img_big gray_big 0 0 50 20 = Inr 235"
    by (simp add: pixel_def gray_big_def)
  moreover have "val (pixel img_big 7 31) 2 = 240" "val (pixel img_big 0 0) 2 = 10"
    "val (pixel gray_big 7 31) 0 = 235" "val (pixel gray_big 0 0) 0 = 18"
    by (simp_all add: pixel_def img_big_def gray_big_def)
  ultimately show ?thesis using img_big_bounds size reg dark_channel_big by blast
qed

text \<open>
  Claim C10. For a non-empty region inside both images with an area below 1000, the
  size computed for the candidate array is 0, the scan returns the empty array without
  raising, and \<^const>\<open>find_light_intensity\<close> returns \<open>-1\<close>. When the region is the whole
  of a colour image, as in the call from \<^verbatim>\<open>main\<close>, the run goes on with \<open>-1\<close> as the
  light intensity: it completes, and the scalar written to the transmission map for each
  pixel is \<open>(1 - v / (-1)) * 255\<close>.
\<close>

theorem find_light_intensity_empty_set:
  assumes "0 \<le> x1" "x1 < x2" "x2 \<le> width img" "x2 \<le> width gray"
    and "0 \<le> y1" "y1 < y2" "y2 \<le> height img" "y2 \<le> height gray"
    and "(x2 - x1) * (y2 - y1) < 1000"
  shows "top_num x1 y1 x2 y2 = 0 \<and> light_scan img gray x1 y1 x2 y2 = Inr [] \<and>
         find_light_intensity img gray x1 y1 x2 y2 = Inr (- 1) \<and>
         (x1 = 0 \<and> y1 = 0 \<and> x2 = width img \<and> y2 = height img \<and> nChannels img = 3 \<longrightarrow>
            (\<exists>m out. defog_loops img (- 1) = Inr (m, out) \<and>
               defog_main img gray = Inr (- 1, m, out) \<and>
               (\<forall>x y. in_region 0 0 (width img) (height img) y x \<longrightarrow>
                  (\<exists>dc. find_dark_channel img (x_low x) (y_low y)
                          (x_high (width img) x) (y_high (height img) y) = Inr dc \<and>
                     cells m (y, x) =
                       Some (cvScalar ((1 - val (pixel img y x) dc / (- 1)) * 255) 0 0 0)))))"
proof -
  note light = find_light_intensity_small_region [OF assms]
  have "\<exists>m out. defog_loops img (- 1) = Inr (m, out) \<and>
               defog_main img gray = Inr (- 1, m, out) \<and>
               (\<forall>x y. in_region 0 0 (width img) (height img) y x \<longrightarrow>
                  (\<exists>dc. find_dark_channel img (x_low x) (y_low y)
                          (x_high (width img) x) (y_high (height img) y) = Inr dc \<and>
                     cells m (y, x) =
                       Some (cvScalar ((1 - val (pixel img y x) dc / (- 1)) * 255) 0 0 0)))"
    if whole: "x1 = 0" "y1 = 0" "x2 = width img" "y2 = height img" and ch: "nChannels img = 3"
  proof -
    from defog_loops_spec [of img "- 1"] assms(2,6) whole ch obtain st where
      run: "defog_loops img (- 1) = Inr st" and
      cell: "\<And>x y. in_region 0 0 (width img) (height img) y x \<Longrightarrow> pixel_done img (- 1) st y x"
      by auto
    have main: "defog_main img gray = Inr (- 1, fst st, snd st)"
      using light whole by (simp add: defog_main_def run)
    have "\<forall>x y. in_region 0 0 (width img) (height img) y x \<longrightarrow>
            (\<exists>dc. find_dark_channel img (x_low x) (y_low y)
                    (x_high (width img) x) (y_high (height img) y) = Inr dc \<and>
               cells (fst st) (y, x) =
                 Some (cvScalar ((1 - val (pixel img y x) dc / (- 1)) * 255) 0 0 0))"
      using cell unfolding pixel_done_def cvScalar_def by blast
    with run main show ?thesis by (cases st) auto
  qed
  with light show ?thesis by blast
qed

theorem find_light_intensity_empty_set_witness:
  "(0::int) \<le> 0 \<and> (0::int) < width img_small \<and> width img_small \<le> width img_small \<and>
   width img_small \<le> width gray_small \<and> (0::int) < height img_small \<and>
   height img_small \<le> height img_small \<and> height img_small \<le> height gray_small \<and>
   (width img_small - 0) * (height img_small - 0) < 1000 \<and> nChannels img_small = 3 \<and>
   in_region 0 0 (width img_small) (height img_small) 0 0 \<and>
   find_light_intensity img_small gray_small 0 0 (width img_small) (height img_small) = Inr (- 1) \<and>
   (\<exists>m out. defog_main img_small gray_small = Inr (- 1, m, out) \<and>
      cells m (0, 0) = Some (cvScalar 30855 0 0 0))"
proof -
  have b: "(0::int) \<le> 0" "(0::int) < width img_small" "width img_small \<le> width img_small"
    "width img_small \<le> width gray_small" "(0::int) < height img_small"
    "height img_small \<le> height img_small" "height img_small \<le> height gray_small"
    "(width img_small - 0) * (height img_small - 0) < 1000"
    by (simp_all add: img_small_def gray_small_def)
  have reg: "in_region 0 0 (width img_small) (height img_small) 0 0"
    by (simp add: in_region_def img_small_def)
  note inst = find_light_intensity_empty_set [OF b(1,2,3,4,1,5,6,7,8)]
  from inst have li: "find_light_intensity img_small gray_small 0 0 (width img_small) (height img_small) = Inr (- 1)"
    by blast
  from inst img_small_dims(3) reg obtain m out dc where
    main: "defog_main img_small gray_small = Inr (- 1, m, out)" and
    dc: "find_dark_channel img_small (x_low 0) (y_low 0)
           (x_high (width img_small) 0) (y_high (height img_small) 0) = Inr dc" and
    cell: "cells m (0, 0) = Some (cvScalar ((1 - val (pixel img_small 0 0) dc / (- 1)) * 255) 0 0 0)"
    by blast
  from dc have "dc = 1" by (simp add: window_small_origin)
  moreover have "(1 - val (pixel img_small 0 0) 1 / (- 1)) * 255 = 30855"
    by (simp add: pixel_def img_small_def)
  ultimately have "cells m (0, 0) = Some (cvScalar 30855 0 0 0)" using cell by simp
  with b reg li main img_small_dims(3) show ?thesis by blast
qed

end
